theory Spec2Isabelle
  imports Complex_Main
begin

section \<open>Python values, errors and the random source\<close>

text \<open>
  The functions of \<^verbatim>\<open>m2jitter.py\<close>, \<^verbatim>\<open>m2retry.py\<close>, \<^verbatim>\<open>m2cache.py\<close> and of their
  merged copy \<^verbatim>\<open>m2ools.py\<close> are embedded as HOL functions.  Python numbers (\<^verbatim>\<open>int\<close> and
  \<^verbatim>\<open>float\<close>) are read as real numbers, so rounding of floats is not part of the model.
  An argument that is not a number is \<open>NonNum\<close>; it stands for an object such as a string,
  a list or \<^verbatim>\<open>None\<close>: comparing it with \<^verbatim>\<open><=\<close> against a number, taking its \<^verbatim>\<open>abs\<close> or adding
  a number to it raises \<^verbatim>\<open>TypeError\<close>, and \<^verbatim>\<open>== 0\<close> is false for it.
\<close>

datatype pyval = Num real | NonNum

datatype pyerror =
    TypeError
  | ValueError
  | IndexError
  | UnboundLocalError
  | OverflowError
  | FileNotFoundError
  | MaxTriesExhaustedError string

text \<open>
  The module \<^verbatim>\<open>random\<close> is an oracle: \<open>gauss_draws\<close> lists the values that the next calls of
  \<^verbatim>\<open>random.gauss\<close> return, \<open>choice_draws\<close> the indices that the next calls of
  \<^verbatim>\<open>random.choice\<close> pick.  A computation that asks for more draws than the oracle holds
  has not finished within these draws: its result is \<open>Diverged\<close>.
\<close>

record rng =
  gauss_draws :: "real list"
  choice_draws :: "nat list"

datatype 'a result = Value 'a rng | Error pyerror | Diverged

section \<open>Jitter (m2jitter.py, and its copy in m2ools.py)\<close>

definition JITTER_SIGMA_COUNT :: real where
  "JITTER_SIGMA_COUNT = 4"

text \<open>
  The sampling loop of \<^verbatim>\<open>get_jitter\<close>:
  \<^verbatim>\<open>
    jitter_amount = random.gauss(mean, std)
    while abs(jitter_amount) >= (std * JITTER_SIGMA_COUNT):
        jitter_amount = random.gauss(mean, std)
    return jitter_amount
  \<close>
  (m2ools.py writes the same loop with an assignment expression).
\<close>

fun sample_loop :: "real \<Rightarrow> real list \<Rightarrow> (real \<times> real list) option" where
  "sample_loop std [] = None"
| "sample_loop std (g # gs) =
     (if \<bar>g\<bar> \<ge> std * JITTER_SIGMA_COUNT then sample_loop std gs else Some (g, gs))"

definition sample :: "real \<Rightarrow> rng \<Rightarrow> real result" where
  "sample std r =
     (case sample_loop std (gauss_draws r) of
        None \<Rightarrow> Diverged
      | Some (g, gs) \<Rightarrow> Value g (r\<lparr>gauss_draws := gs\<rparr>))"

text \<open>
  \<^verbatim>\<open>get_jitter\<close> of m2jitter.py (lines 12-41).  The test
  \<^verbatim>\<open>jitterfactor <= 0 or val == 0\<close> is evaluated left to right: a non-numeric
  \<^verbatim>\<open>jitterfactor\<close> raises in the comparison, a non-positive one returns before \<^verbatim>\<open>val\<close>
  is looked at, and a non-numeric \<^verbatim>\<open>val\<close> raises in \<^verbatim>\<open>abs(val)\<close>.
\<close>

fun get_jitter :: "pyval \<Rightarrow> pyval \<Rightarrow> rng \<Rightarrow> real result" where
  "get_jitter val NonNum r = Error TypeError"
| "get_jitter val (Num jitterfactor) r =
     (if jitterfactor \<le> 0 then Value 0 r
      else (case val of
              NonNum \<Rightarrow> Error TypeError
            | Num v \<Rightarrow>
                if v = 0 then Value 0 r
                else sample (\<bar>v\<bar> * jitterfactor / JITTER_SIGMA_COUNT) r))"

text \<open>\<^verbatim>\<open>get_jittered\<close>: \<^verbatim>\<open>return val + get_jitter(val, jitterfactor)\<close>.\<close>

definition get_jittered :: "pyval \<Rightarrow> pyval \<Rightarrow> rng \<Rightarrow> real result" where
  "get_jittered val jitterfactor r =
     (case get_jitter val jitterfactor r of
        Error e \<Rightarrow> Error e
      | Diverged \<Rightarrow> Diverged
      | Value j r' \<Rightarrow> (case val of NonNum \<Rightarrow> Error TypeError | Num v \<Rightarrow> Value (v + j) r'))"

text \<open>
  \<^verbatim>\<open>get_jitter\<close> of m2ools.py (lines 25-65): the type of \<^verbatim>\<open>val\<close> is checked first, and a
  zero \<^verbatim>\<open>val\<close> returns 0 before \<^verbatim>\<open>jitterfactor\<close> is looked at.
\<close>

fun m2ools_get_jitter :: "pyval \<Rightarrow> pyval \<Rightarrow> rng \<Rightarrow> real result" where
  "m2ools_get_jitter NonNum jitterfactor r = Error TypeError"
| "m2ools_get_jitter (Num v) jitterfactor r =
     (if v = 0 then Value 0 r
      else (case jitterfactor of
              NonNum \<Rightarrow> Error TypeError
            | Num jf \<Rightarrow>
                if jf < 0 then Error ValueError
                else if jf = 0 then Value 0 r
                else sample (\<bar>v\<bar> * jf / JITTER_SIGMA_COUNT) r))"

definition m2ools_get_jittered :: "pyval \<Rightarrow> pyval \<Rightarrow> rng \<Rightarrow> real result" where
  "m2ools_get_jittered val jitterfactor r =
     (case m2ools_get_jitter val jitterfactor r of
        Error e \<Rightarrow> Error e
      | Diverged \<Rightarrow> Diverged
      | Value j r' \<Rightarrow> (case val of NonNum \<Rightarrow> Error TypeError | Num v \<Rightarrow> Value (v + j) r'))"

text \<open>A random source that holds the given draws of \<^verbatim>\<open>random.gauss\<close> only.\<close>

definition rng0 :: "real list \<Rightarrow> rng" where
  "rng0 gs = \<lparr>gauss_draws = gs, choice_draws = []\<rparr>"

section \<open>Jitter over binary64 floats\<close>

text \<open>
  The crop bound of \<^verbatim>\<open>get_jitter\<close> is sensitive to the rounding of Python's \<^verbatim>\<open>float\<close>, so
  for it \<^verbatim>\<open>get_jitter\<close> and \<^verbatim>\<open>get_jittered\<close> of m2jitter.py are embedded a second time,
  over IEEE 754 binary64 values: a finite value (a real number that has a binary64
  representation), the two infinities and NaN.  The two zeros are one value; their sign is
  not observable in what follows.  Every operation computes the exact result and rounds it
  to the nearest binary64 value, ties to the even significand.  An \<^verbatim>\<open>int\<close> argument is
  read as the \<^verbatim>\<open>float\<close> of the same value.
\<close>

datatype double = Finite real | PInf | NInf | NaN

text \<open>\<open>log2n n\<close> is the integer part of the binary logarithm of \<open>n \<ge> 1\<close>.\<close>

fun log2n :: "nat \<Rightarrow> nat" where
  "log2n n = (if n < 2 then 0 else Suc (log2n (n div 2)))"

declare log2n.simps [simp del]

definition pow2 :: "int \<Rightarrow> real" where
  "pow2 e = (if 0 \<le> e then 2 ^ nat e else 1 / 2 ^ nat (- e))"

text \<open>The binary exponent of \<open>x > 0\<close>: the \<open>e\<close> with \<open>2\<^sup>e \<le> x < 2\<^sup>e\<^sup>+\<^sup>1\<close>.\<close>

definition ilog2 :: "real \<Rightarrow> int" where
  "ilog2 x = (if 1 \<le> x then int (log2n (nat \<lfloor>x\<rfloor>))
              else - int (log2n (nat (\<lceil>1 / x\<rceil> - 1))) - 1)"

text \<open>Rounding to the nearest integer, a tie to the even one.\<close>

definition rne :: "real \<Rightarrow> int" where
  "rne y = (let f = \<lfloor>y\<rfloor>; r = y - of_int f
            in if r < 1 / 2 then f else if 1 / 2 < r then f + 1
               else if even f then f else f + 1)"

text \<open>
  The spacing of the binary64 values around \<open>x \<noteq> 0\<close>: 52 binary places below the exponent
  of \<open>x\<close>, and \<open>2\<^sup>-\<^sup>1\<^sup>0\<^sup>7\<^sup>4\<close> for the subnormal numbers below \<open>2\<^sup>-\<^sup>1\<^sup>0\<^sup>2\<^sup>2\<close>.  \<open>round64\<close> rounds to
  that grid; \<open>fl\<close> is the binary64 result, which is an infinity when the rounded magnitude
  reaches \<open>2\<^sup>1\<^sup>0\<^sup>2\<^sup>4\<close>.
\<close>

definition quantum :: "real \<Rightarrow> real" where
  "quantum x = pow2 (max (ilog2 \<bar>x\<bar>) (- 1022) - 52)"

definition round64 :: "real \<Rightarrow> real" where
  "round64 x = (if x = 0 then 0 else of_int (rne (x / quantum x)) * quantum x)"

definition fl :: "real \<Rightarrow> double" where
  "fl x = (let y = round64 x
           in if 2 ^ 1024 \<le> y then PInf else if y \<le> - (2 ^ 1024) then NInf else Finite y)"

definition is_double :: "real \<Rightarrow> bool" where
  "is_double x \<longleftrightarrow> fl x = Finite x"

text \<open>
  The operations of \<^verbatim>\<open>float\<close> that \<^verbatim>\<open>get_jitter\<close> uses: \<^verbatim>\<open>abs\<close>, \<^verbatim>\<open>*\<close>, \<^verbatim>\<open>/\<close> by the
  constant \<^verbatim>\<open>JITTER_SIGMA_COUNT\<close> (4, so no division by zero), \<^verbatim>\<open>+\<close> and \<^verbatim>\<open>>=\<close>.  A
  comparison with NaN is false; infinity times zero and the sum of the two infinities are
  NaN.
\<close>

fun sgn_d :: "double \<Rightarrow> real" where
  "sgn_d (Finite x) = sgn x"
| "sgn_d PInf = 1"
| "sgn_d NInf = - 1"
| "sgn_d NaN = 0"

definition inf_of :: "real \<Rightarrow> double" where
  "inf_of s = (if s = 0 then NaN else if 0 < s then PInf else NInf)"

fun fabs :: "double \<Rightarrow> double" where
  "fabs (Finite x) = Finite \<bar>x\<bar>"
| "fabs PInf = PInf"
| "fabs NInf = PInf"
| "fabs NaN = NaN"

fun fmul :: "double \<Rightarrow> double \<Rightarrow> double" where
  "fmul (Finite x) (Finite y) = fl (x * y)"
| "fmul NaN b = NaN"
| "fmul a NaN = NaN"
| "fmul a b = inf_of (sgn_d a * sgn_d b)"

fun fdiv_by :: "double \<Rightarrow> real \<Rightarrow> double" where
  "fdiv_by (Finite x) c = fl (x / c)"
| "fdiv_by NaN c = NaN"
| "fdiv_by a c = inf_of (sgn_d a * sgn c)"

fun fadd :: "double \<Rightarrow> double \<Rightarrow> double" where
  "fadd (Finite x) (Finite y) = fl (x + y)"
| "fadd NaN b = NaN"
| "fadd a NaN = NaN"
| "fadd PInf NInf = NaN"
| "fadd NInf PInf = NaN"
| "fadd (Finite x) b = b"
| "fadd a b = a"

fun fge :: "double \<Rightarrow> double \<Rightarrow> bool" where
  "fge (Finite x) (Finite y) \<longleftrightarrow> y \<le> x"
| "fge NaN b \<longleftrightarrow> False"
| "fge a NaN \<longleftrightarrow> False"
| "fge PInf b \<longleftrightarrow> True"
| "fge a NInf \<longleftrightarrow> True"
| "fge a b \<longleftrightarrow> False"

text \<open>
  \<^verbatim>\<open>get_jitter\<close> and \<^verbatim>\<open>get_jittered\<close> of m2jitter.py (lines 29-45) for \<^verbatim>\<open>float\<close> arguments.
  \<open>gs\<close> lists the values that the next calls of \<^verbatim>\<open>random.gauss\<close> return; \<open>None\<close> is a call
  that has not returned within these draws.  \<open>crop_bound\<close> is the value
  \<^verbatim>\<open>std * JITTER_SIGMA_COUNT\<close> that the loop compares the draws with.
\<close>

fun sample_loop_f64 :: "double \<Rightarrow> double list \<Rightarrow> (double \<times> double list) option" where
  "sample_loop_f64 std [] = None"
| "sample_loop_f64 std (g # gs) =
     (if fge (fabs g) (fmul std (Finite JITTER_SIGMA_COUNT)) then sample_loop_f64 std gs
      else Some (g, gs))"

definition get_jitter_f64 :: "double \<Rightarrow> double \<Rightarrow> double list \<Rightarrow> (double \<times> double list) option" where
  "get_jitter_f64 val jf gs =
     (if fge (Finite 0) jf \<or> val = Finite 0 then Some (Finite 0, gs)
      else sample_loop_f64 (fdiv_by (fmul (fabs val) jf) JITTER_SIGMA_COUNT) gs)"

definition get_jittered_f64 :: "double \<Rightarrow> double \<Rightarrow> double list \<Rightarrow> (double \<times> double list) option" where
  "get_jittered_f64 val jf gs =
     (case get_jitter_f64 val jf gs of
        None \<Rightarrow> None
      | Some (j, rest) \<Rightarrow> Some (fadd val j, rest))"

definition crop_bound :: "double \<Rightarrow> double \<Rightarrow> double" where
  "crop_bound val jf =
     fmul (fdiv_by (fmul (fabs val) jf) JITTER_SIGMA_COUNT) (Finite JITTER_SIGMA_COUNT)"
section \<open>Dates and times (the part of Python's \<^verbatim>\<open>datetime\<close> that m2cache.py uses)\<close>

text \<open>
  Modelled from the Python library: \<^verbatim>\<open>datetime.datetime\<close> with its constructor checks, its
  comparison, \<^verbatim>\<open>timedelta\<close> and the subtraction of a \<^verbatim>\<open>timedelta\<close> from a
  \<^verbatim>\<open>datetime\<close>, as the pure Python implementation of the module computes them
  (\<^verbatim>\<open>_ymd2ord\<close>, \<^verbatim>\<open>_ord2ymd\<close>, \<^verbatim>\<open>__add__\<close>).  Strings are ASCII: \<^verbatim>\<open>\d\<close> is one of the
  characters 0 to 9.
\<close>

record datetime =
  year :: int
  month :: int
  day :: int
  hour :: int
  minute :: int
  second :: int
  microsecond :: int

definition is_leap :: "int \<Rightarrow> bool" where
  "is_leap y \<longleftrightarrow> y mod 4 = 0 \<and> (y mod 100 \<noteq> 0 \<or> y mod 400 = 0)"

definition DAYS_IN_MONTH :: "int list" where
  "DAYS_IN_MONTH = [31, 28, 31, 30, 31, 30, 31, 31, 30, 31, 30, 31]"

text \<open>For a month between 1 and 12.\<close>

definition days_in_month :: "int \<Rightarrow> int \<Rightarrow> int" where
  "days_in_month y m = (if m = 2 \<and> is_leap y then 29 else DAYS_IN_MONTH ! nat (m - 1))"

text \<open>
  The constructor \<^verbatim>\<open>datetime(year, month, day, hour, minute, second)\<close>: it raises
  \<^verbatim>\<open>ValueError\<close> for a field out of range (\<^verbatim>\<open>MINYEAR = 1\<close>, \<^verbatim>\<open>MAXYEAR = 9999\<close>).
\<close>

definition py_datetime :: "int \<Rightarrow> int \<Rightarrow> int \<Rightarrow> int \<Rightarrow> int \<Rightarrow> int \<Rightarrow> pyerror + datetime" where
  "py_datetime y mo d h mi s =
     (if y < 1 \<or> 9999 < y then Inl ValueError
      else if mo < 1 \<or> 12 < mo then Inl ValueError
      else if d < 1 \<or> days_in_month y mo < d then Inl ValueError
      else if h < 0 \<or> 23 < h then Inl ValueError
      else if mi < 0 \<or> 59 < mi then Inl ValueError
      else if s < 0 \<or> 59 < s then Inl ValueError
      else Inr \<lparr>year = y, month = mo, day = d, hour = h, minute = mi, second = s,
                microsecond = 0\<rparr>)"

text \<open>Comparison of two datetimes: that of the tuples of their fields.\<close>

fun lex_le :: "int list \<Rightarrow> int list \<Rightarrow> bool" where
  "lex_le [] ys = True"
| "lex_le (x # xs) [] = False"
| "lex_le (x # xs) (y # ys) = (x < y \<or> (x = y \<and> lex_le xs ys))"

definition dt_fields :: "datetime \<Rightarrow> int list" where
  "dt_fields t = [year t, month t, day t, hour t, minute t, second t, microsecond t]"

definition dt_le :: "datetime \<Rightarrow> datetime \<Rightarrow> bool" where
  "dt_le a b \<longleftrightarrow> lex_le (dt_fields a) (dt_fields b)"

definition dt_less :: "datetime \<Rightarrow> datetime \<Rightarrow> bool" where
  "dt_less a b \<longleftrightarrow> \<not> dt_le b a"

text \<open>\<^verbatim>\<open>_days_before_year\<close>, \<^verbatim>\<open>_days_before_month\<close>, \<^verbatim>\<open>_ymd2ord\<close> (\<^verbatim>\<open>toordinal\<close>).\<close>

definition days_before_year :: "int \<Rightarrow> int" where
  "days_before_year y = (y - 1) * 365 + (y - 1) div 4 - (y - 1) div 100 + (y - 1) div 400"

definition days_before_month :: "int \<Rightarrow> int \<Rightarrow> int" where
  "days_before_month y m =
     sum_list (take (nat (m - 1)) DAYS_IN_MONTH) + (if 2 < m \<and> is_leap y then 1 else 0)"

definition ymd2ord :: "int \<Rightarrow> int \<Rightarrow> int \<Rightarrow> int" where
  "ymd2ord y m d = days_before_year y + days_before_month y m + d"

text \<open>
  \<^verbatim>\<open>_ord2ymd\<close> (\<^verbatim>\<open>date.fromordinal\<close>), with the constants \<^verbatim>\<open>_DI400Y = 146097\<close>,
  \<^verbatim>\<open>_DI100Y = 36524\<close>, \<^verbatim>\<open>_DI4Y = 1461\<close>; \<^verbatim>\<open>(n + 50) >> 5\<close> is the estimate of the month.
\<close>

definition ord2ymd :: "int \<Rightarrow> int \<times> int \<times> int" where
  "ord2ymd ordinal =
     (let n = ordinal - 1;
          n400 = n div 146097; n = n mod 146097;
          n100 = n div 36524; n = n mod 36524;
          n4 = n div 1461; n = n mod 1461;
          n1 = n div 365; n = n mod 365;
          y = n400 * 400 + 1 + n100 * 100 + n4 * 4 + n1
      in if n1 = 4 \<or> n100 = 4 then (y - 1, 12, 31)
         else
           let leapyear = (n1 = 3 \<and> (n4 \<noteq> 24 \<or> n100 = 3));
               m = (n + 50) div 32;
               preceding = sum_list (take (nat (m - 1)) DAYS_IN_MONTH)
                             + (if 2 < m \<and> leapyear then 1 else 0)
           in if n < preceding
              then let m' = m - 1;
                       preceding' = preceding - (DAYS_IN_MONTH ! nat (m' - 1)
                                      + (if m' = 2 \<and> leapyear then 1 else 0))
                   in (y, m', n - preceding' + 1)
              else (y, m, n - preceding + 1))"

text \<open>
  \<^verbatim>\<open>timedelta(weeks=w, days=d, hours=h, minutes=mi, seconds=s)\<close> for integers: the number
  of days and of seconds below a day; \<^verbatim>\<open>OverflowError\<close> beyond 999999999 days.
\<close>

definition py_timedelta :: "int \<Rightarrow> int \<Rightarrow> int \<Rightarrow> int \<Rightarrow> int \<Rightarrow> pyerror + (int \<times> int)" where
  "py_timedelta w d h mi s =
     (let secs = s + 60 * mi + 3600 * h;
          days = d + 7 * w + secs div 86400
      in if 999999999 < \<bar>days\<bar> then Inl OverflowError else Inr (days, secs mod 86400))"

text \<open>
  \<^verbatim>\<open>datetime - timedelta\<close>: the ordinal of the date and the seconds of the day, minus the
  delta; \<^verbatim>\<open>OverflowError\<close> when the day is not between 1 and \<^verbatim>\<open>_MAXORDINAL = 3652059\<close>.
  The microseconds are kept.
\<close>

definition dt_minus :: "datetime \<Rightarrow> int \<times> int \<Rightarrow> pyerror + datetime" where
  "dt_minus t delta =
     (let secs = 3600 * hour t + 60 * minute t + second t - snd delta;
          days = ymd2ord (year t) (month t) (day t) - fst delta + secs div 86400;
          secs = secs mod 86400
      in if days < 1 \<or> 3652059 < days then Inl OverflowError
         else case ord2ymd days of
                (y, m, d) \<Rightarrow>
                  Inr \<lparr>year = y, month = m, day = d, hour = secs div 3600,
                       minute = (secs mod 3600) div 60, second = secs mod 60,
                       microsecond = microsecond t\<rparr>)"

text \<open>
  \<^verbatim>\<open>strftime('_%Y-%m-%d_%H%M%S')\<close>: the fields as decimal numbers, padded with zeros to 4
  and to 2 digits.
\<close>

fun str_nat :: "nat \<Rightarrow> string" where
  "str_nat n =
     (if n < 10 then [''0123456789'' ! n]
      else str_nat (n div 10) @ [''0123456789'' ! (n mod 10)])"

declare str_nat.simps [simp del]

definition zero_pad :: "nat \<Rightarrow> int \<Rightarrow> string" where
  "zero_pad width n =
     (let s = str_nat (nat n) in replicate (width - length s) (CHR ''0'') @ s)"

definition strftime_cache :: "datetime \<Rightarrow> string" where
  "strftime_cache t =
     ''_'' @ zero_pad 4 (year t) @ ''-'' @ zero_pad 2 (month t) @ ''-'' @ zero_pad 2 (day t)
       @ ''_'' @ zero_pad 2 (hour t) @ zero_pad 2 (minute t) @ zero_pad 2 (second t)"

section \<open>The reachback parser \<^verbatim>\<open>get_dt\<close> (m2cache.py lines 68-84, m2ools.py lines 285-301)\<close>

definition is_digit :: "char \<Rightarrow> bool" where
  "is_digit c \<longleftrightarrow> c \<in> set ''0123456789''"

text \<open>\<^verbatim>\<open>int(x)\<close> for a string of digits.\<close>

definition digit_val :: "char \<Rightarrow> int" where
  "digit_val c = int (of_char c) - 48"

definition int_of_digits :: "string \<Rightarrow> int" where
  "int_of_digits ds = foldl (\<lambda>a c. 10 * a + digit_val c) 0 ds"

text \<open>
  \<^verbatim>\<open>re.match(datetime_re, reachback)\<close> with
  \<^verbatim>\<open>
    datetime_re = r'(\d{1,4})(?:\D(\d{1,2}))?(?:\D(\d{1,2}))?(?:\D(\d{1,2}))?(?:\D(\d{1,2}))?(?:\D(\d{1,2}))?$'
  \<close>
  The matcher follows the backtracking of \<^verbatim>\<open>re\<close>: every quantifier is greedy, so the
  longer alternative is tried first and the shorter one (for an optional group: skipping
  it) only when the rest of the pattern fails after the longer one.  \<open>digits_at n s\<close> says
  that \<open>s\<close> starts with \<open>n\<close> digits; \<open>group_at n s\<close> matches \<^verbatim>\<open>\D(\d{n})\<close> at the start of
  \<open>s\<close> and gives the digits and the rest.  \<^verbatim>\<open>$\<close> matches at the end of the string and
  before a newline that ends the string.  The result lists the six groups, \<open>None\<close> for a
  group that took no part in the match.
\<close>

definition digits_at :: "nat \<Rightarrow> string \<Rightarrow> bool" where
  "digits_at n s \<longleftrightarrow> n \<le> length s \<and> list_all is_digit (take n s)"

definition group_at :: "nat \<Rightarrow> string \<Rightarrow> (string \<times> string) option" where
  "group_at n s =
     (case s of
        [] \<Rightarrow> None
      | c # rest \<Rightarrow>
          if \<not> is_digit c \<and> digits_at n rest then Some (take n rest, drop n rest) else None)"

definition at_end :: "string \<Rightarrow> bool" where
  "at_end s \<longleftrightarrow> s = [] \<or> s = [CHR 0x0A]"

definition or_else :: "'a option \<Rightarrow> 'a option \<Rightarrow> 'a option" where
  "or_else a b = (case a of Some x \<Rightarrow> Some x | None \<Rightarrow> b)"

fun match_groups :: "nat \<Rightarrow> string \<Rightarrow> string option list option" where
  "match_groups 0 s = (if at_end s then Some [] else None)"
| "match_groups (Suc k) s =
     or_else
       (case group_at 2 s of
          Some (ds, rest) \<Rightarrow> map_option (\<lambda>gs. Some ds # gs) (match_groups k rest)
        | None \<Rightarrow> None)
       (or_else
          (case group_at 1 s of
             Some (ds, rest) \<Rightarrow> map_option (\<lambda>gs. Some ds # gs) (match_groups k rest)
           | None \<Rightarrow> None)
          (map_option (\<lambda>gs. None # gs) (match_groups k s)))"

definition match_year :: "nat \<Rightarrow> string \<Rightarrow> string option list option" where
  "match_year n s =
     (if digits_at n s then map_option (\<lambda>gs. Some (take n s) # gs) (match_groups 5 (drop n s))
      else None)"

definition match_datetime :: "string \<Rightarrow> string option list option" where
  "match_datetime s =
     or_else (match_year 4 s) (or_else (match_year 3 s) (or_else (match_year 2 s) (match_year 1 s)))"

text \<open>
  \<^verbatim>\<open>re.findall(customtimedelta_re, reachback)\<close> with
  \<^verbatim>\<open>
    customtimedelta_re = r'(\d+) *(year|month|week|day|hour|minute|second)s?'
  \<close>
  \<open>match_phrase\<close> matches the pattern at the start of a string: all the digits there (with
  fewer, the next character is a digit, which neither \<^verbatim>\<open> *\<close> nor a unit matches), all the
  spaces after them (with fewer, a space is next, which no unit matches), the first unit of
  the alternation that is a prefix of the rest, and an \<^verbatim>\<open>s\<close> if one follows.  It gives the
  two groups and the rest of the string.  \<open>findall\<close> scans from left to right and goes on
  after the end of a match.
\<close>

definition UNITS :: "string list" where
  "UNITS = [''year'', ''month'', ''week'', ''day'', ''hour'', ''minute'', ''second'']"

fun match_unit :: "string list \<Rightarrow> string \<Rightarrow> (string \<times> string) option" where
  "match_unit [] s = None"
| "match_unit (u # us) s =
     (if take (length u) s = u then Some (u, drop (length u) s) else match_unit us s)"

definition match_phrase :: "string \<Rightarrow> ((string \<times> string) \<times> string) option" where
  "match_phrase s =
     (let ds = takeWhile is_digit s;
          r = dropWhile (\<lambda>c. c = CHR '' '') (dropWhile is_digit s)
      in if ds = [] then None
         else (case match_unit UNITS r of
                 None \<Rightarrow> None
               | Some (u, rest) \<Rightarrow>
                   Some ((ds, u), (case rest of c # rest' \<Rightarrow> if c = CHR ''s'' then rest' else rest
                                   | [] \<Rightarrow> rest))))"

lemma match_unit_length: "match_unit us s = Some (u, rest) \<Longrightarrow> length rest \<le> length s"
  by (induction us) (auto split: if_splits)

lemma match_phrase_shorter:
  assumes "match_phrase s = Some (g, rest)"
  shows "length rest < length s"
proof -
  let ?ds = "takeWhile is_digit s"
  let ?r = "dropWhile (\<lambda>c. c = CHR '' '') (dropWhile is_digit s)"
  from assms have ne: "?ds \<noteq> []"
    by (auto simp: match_phrase_def Let_def split: if_splits)
  from assms ne obtain u rest0 where m: "match_unit UNITS ?r = Some (u, rest0)"
    and r: "length rest \<le> length rest0"
    by (auto simp: match_phrase_def Let_def split: option.splits list.splits if_splits)
  have "length ?r \<le> length (dropWhile is_digit s)"
    by (rule length_dropWhile_le)
  moreover have "length ?ds + length (dropWhile is_digit s) = length s"
    by (metis length_append takeWhile_dropWhile_id)
  moreover from ne have "0 < length ?ds" by simp
  ultimately have "length ?r < length s" by linarith
  with match_unit_length [OF m] r show ?thesis by linarith
qed

function findall :: "string \<Rightarrow> (string \<times> string) list" where
  "findall [] = []"
| "findall (c # cs) =
     (case match_phrase (c # cs) of
        Some (g, rest) \<Rightarrow> g # findall rest
      | None \<Rightarrow> findall cs)"
  by pat_completeness auto
termination
proof (relation "measure length")
  show "wf (measure length)" by simp
next
  fix c cs x2 x y
  assume "match_phrase (c # cs) = Some x2" "(x, y) = x2"
  then have "match_phrase (c # cs) = Some (x, y)" by simp
  from match_phrase_shorter [OF this] show "(y, c # cs) \<in> measure length" by simp
next
  fix c cs
  show "(cs, c # cs) \<in> measure length" by simp
qed

text \<open>
  The dictionaries \<^verbatim>\<open>tdelta_args\<close> and \<^verbatim>\<open>custom_args\<close>: in a dict comprehension a later
  phrase with the same unit replaces an earlier one; a unit that does not occur counts 0
  (the default of \<^verbatim>\<open>timedelta\<close>, and of \<^verbatim>\<open>custom_args.get\<close>).
\<close>

definition unit_arg :: "string \<Rightarrow> (string \<times> string) list \<Rightarrow> int" where
  "unit_arg u matches =
     (case filter (\<lambda>(v, k). k = u) matches of
        [] \<Rightarrow> 0
      | ms \<Rightarrow> int_of_digits (fst (last ms)))"

text \<open>
  The loop
  \<^verbatim>\<open>
    while month <= 0:
        month += 12
        year -= 1
  \<close>
  on the pair of \<^verbatim>\<open>month\<close> and \<^verbatim>\<open>year\<close>.
\<close>

function borrow :: "int \<Rightarrow> int \<Rightarrow> int \<times> int" where
  "borrow m y = (if m \<le> 0 then borrow (m + 12) (y - 1) else (m, y))"
  by pat_completeness auto
termination
  by (relation "measure (\<lambda>(m, y). nat (1 - m))") auto

declare borrow.simps [simp del]

text \<open>
  \<^verbatim>\<open>get_dt(reachback)\<close>; \<open>now\<close> is what \<^verbatim>\<open>datetime.now()\<close> returns.  When neither pattern
  matches, no branch assigns \<^verbatim>\<open>dt_args\<close> and the \<^verbatim>\<open>return\<close> raises
  \<^verbatim>\<open>UnboundLocalError\<close>.
\<close>

definition group_or :: "int \<Rightarrow> string option \<Rightarrow> int" where
  "group_or dflt g = (case g of None \<Rightarrow> dflt | Some x \<Rightarrow> int_of_digits x)"

definition get_dt :: "string \<Rightarrow> datetime \<Rightarrow> pyerror + datetime" where
  "get_dt reachback now =
     (case match_datetime reachback of
        Some groups \<Rightarrow>
          py_datetime (group_or 1 (groups ! 0)) (group_or 1 (groups ! 1)) (group_or 1 (groups ! 2))
            (group_or 0 (groups ! 3)) (group_or 0 (groups ! 4)) (group_or 0 (groups ! 5))
      | None \<Rightarrow>
          (case findall reachback of
             [] \<Rightarrow> Inl UnboundLocalError
           | m # ms \<Rightarrow>
               let matches = m # ms in
               (case py_timedelta (unit_arg ''week'' matches) (unit_arg ''day'' matches)
                       (unit_arg ''hour'' matches) (unit_arg ''minute'' matches)
                       (unit_arg ''second'' matches) of
                  Inl e \<Rightarrow> Inl e
                | Inr tdelta \<Rightarrow>
                    (case dt_minus now tdelta of
                       Inl e \<Rightarrow> Inl e
                     | Inr dt \<Rightarrow>
                         (case borrow (month dt - unit_arg ''month'' matches)
                                 (year dt - unit_arg ''year'' matches) of
                            (month', year') \<Rightarrow>
                              py_datetime year' month' (day dt) (hour dt) (minute dt)
                                (second dt))))))"

text \<open>The fields that the constructor \<^verbatim>\<open>datetime\<close> accepts.\<close>

definition valid_datetime :: "int \<Rightarrow> int \<Rightarrow> int \<Rightarrow> int \<Rightarrow> int \<Rightarrow> int \<Rightarrow> bool" where
  "valid_datetime y mo d h mi s \<longleftrightarrow>
     1 \<le> y \<and> y \<le> 9999 \<and> 1 \<le> mo \<and> mo \<le> 12 \<and> 1 \<le> d \<and> d \<le> days_in_month y mo \<and>
     0 \<le> h \<and> h \<le> 23 \<and> 0 \<le> mi \<and> mi \<le> 59 \<and> 0 \<le> s \<and> s \<le> 59"

text \<open>A clock reading for the examples: 31 March 2024, 01:02:03.000456.\<close>

definition now_example :: datetime where
  "now_example = \<lparr>year = 2024, month = 3, day = 31, hour = 1, minute = 2, second = 3,
                   microsecond = 456\<rparr>"





section \<open>Retry (m2retry.py, and its copy in m2ools.py)\<close>

text \<open>
  The keyword arguments of the decorator \<^verbatim>\<open>m2retry\<close>.  The types are those that pass the
  decorator's \<^verbatim>\<open>isinstance\<close> checks (an \<^verbatim>\<open>int\<close>, numbers, booleans, a callable), so the
  \<^verbatim>\<open>TypeError\<close> branches of lines 38-69 are excluded by typing; the \<^verbatim>\<open>ValueError\<close>
  branches are kept.
\<close>

record 'r retry_args =
  validator :: "'r \<Rightarrow> bool"
  maxtries :: int
  delay :: real
  jitterfactor :: real
  backoff :: bool
  boexpbase :: real
  borandom :: bool

text \<open>
  Lines 41-79 of \<^verbatim>\<open>m2retry\<close>: the range checks in the order of the source, then
  \<^verbatim>\<open>
    if not delay:
        jitterfactor = 0
        backoff = False
    if not backoff:
        boexpbase = 1
    if boexpbase == 1:
        borandom = False
  \<close>
  The result is the set of values that the closures \<^verbatim>\<open>exponent\<close>, \<^verbatim>\<open>get_waiting_time\<close>
  and \<^verbatim>\<open>wrapper\<close> capture.
\<close>

definition m2retry :: "'r retry_args \<Rightarrow> pyerror + 'r retry_args" where
  "m2retry a =
     (if maxtries a < 1 then Inl ValueError
      else if delay a < 0 then Inl ValueError
      else if jitterfactor a < 0 \<or> jitterfactor a > 1 then Inl ValueError
      else if boexpbase a < 1 then Inl ValueError
      else
        let a1 = (if delay a = 0 then a\<lparr>jitterfactor := 0, backoff := False\<rparr> else a);
            a2 = (if \<not> backoff a1 then a1\<lparr>boexpbase := 1\<rparr> else a1);
            a3 = (if boexpbase a2 = 1 then a2\<lparr>borandom := False\<rparr> else a2)
        in Inr a3)"

text \<open>
  \<^verbatim>\<open>random.choice(seq)\<close> raises \<^verbatim>\<open>IndexError\<close> on an empty sequence and returns
  \<^verbatim>\<open>seq[i]\<close> for an index \<open>i < len(seq)\<close> otherwise; the oracle gives the index
  (reduced modulo the length).  Modelled from the Python library.
\<close>

definition random_choice :: "'a list \<Rightarrow> rng \<Rightarrow> 'a result" where
  "random_choice xs r =
     (if xs = [] then Error IndexError
      else (case choice_draws r of
              [] \<Rightarrow> Diverged
            | i # rest \<Rightarrow> Value (xs ! (i mod length xs)) (r\<lparr>choice_draws := rest\<rparr>)))"

text \<open>
  \<^verbatim>\<open>exponent(failcount)\<close>, lines 81-86: with \<^verbatim>\<open>borandom\<close> it is
  \<^verbatim>\<open>random.choice([exponent for exponent in range(failcount)])\<close>, otherwise
  \<^verbatim>\<open>failcount - 1\<close>.
\<close>

definition exponent :: "'r retry_args \<Rightarrow> nat \<Rightarrow> rng \<Rightarrow> int result" where
  "exponent P failcount r =
     (if borandom P then random_choice (map int [0 ..< failcount]) r
      else Value (int failcount - 1) r)"

text \<open>Python's \<^verbatim>\<open>base ** e\<close> for a base \<open>\<ge> 1\<close> and an integer \<open>e\<close>.\<close>

definition py_pow :: "real \<Rightarrow> int \<Rightarrow> real" where
  "py_pow b e = (if 0 \<le> e then b ^ nat e else 1 / b ^ nat (- e))"

text \<open>
  \<^verbatim>\<open>get_waiting_time\<close>, lines 88-90: \<^verbatim>\<open>boexpbase ** (exponent(failcount)) * delay\<close>, passed
  through the decorator \<^verbatim>\<open>m2jitter(jitterfactor=jitterfactor)\<close>, that is through
  \<^verbatim>\<open>get_jittered(result, jitterfactor)\<close>.  (m2ools.py has the same text with its own
  \<^verbatim>\<open>jitter\<close> decorator.)
\<close>

definition get_waiting_time :: "'r retry_args \<Rightarrow> nat \<Rightarrow> rng \<Rightarrow> real result" where
  "get_waiting_time P failcount r =
     (case exponent P failcount r of
        Error e \<Rightarrow> Error e
      | Diverged \<Rightarrow> Diverged
      | Value e r1 \<Rightarrow>
          get_jittered (Num (py_pow (boexpbase P) e * delay P)) (Num (jitterfactor P)) r1)"

text \<open>
  The text of the exception of line 107:
  \<^verbatim>\<open>
    f'{func.__name__}({", ".join([str(arg) for arg in args])
        + ", ".join([f"{k}={v!r}" for k, v in kwargs.items()])}) failed {failcount} times, returning None.'
  \<close>
  The positional arguments come as their \<^verbatim>\<open>str\<close>, the keyword arguments as pairs of the
  key and the \<^verbatim>\<open>repr\<close> of the value.
\<close>

fun join :: "string \<Rightarrow> string list \<Rightarrow> string" where
  "join sep [] = []"
| "join sep [x] = x"
| "join sep (x # y # ys) = x @ sep @ join sep (y # ys)"

definition exhausted_message :: "string \<Rightarrow> string list \<Rightarrow> (string \<times> string) list \<Rightarrow> nat \<Rightarrow> string" where
  "exhausted_message func_name args kwargs failcount =
     func_name @ ''('' @ join '', '' args @ join '', '' (map (\<lambda>(k, v). k @ ''='' @ v) kwargs)
       @ '') failed '' @ str_nat failcount @ '' times, returning None.''"

text \<open>
  A run of the wrapper is observed through its trace: every call of the wrapped function
  with what it returned (\<open>Inr\<close>) or raised (\<open>Inl\<close>), and every \<^verbatim>\<open>sleep\<close> with its length.
  The wrapped function \<^verbatim>\<open>func(*args, **kwargs)\<close>, for the arguments of one call of the
  wrapper, is a function \<open>call\<close> on the state \<open>'s\<close> it works on.
\<close>

datatype ('x, 'r) event = Invoked "'x + 'r" | Slept real

record ('s, 'x, 'r) rworld =
  opstate :: 's
  rand :: rng
  trace :: "('x, 'r) event list"

datatype ('x, 'r) outcome = Returned 'r | Raised pyerror | OpRaised 'x | Hung

text \<open>
  The loop of \<^verbatim>\<open>wrapper\<close>, lines 95-107:
  \<^verbatim>\<open>
    while remaining_tries:
        if validator((result := func(*args, **kwargs))):
            failcount = 0
            return result
        failcount += 1
        remaining_tries -= 1
        if delay and remaining_tries:
            time_to_wait = get_waiting_time(boexpbase, failcount, delay)
            sleep(time_to_wait)
    else:
        raise MaxTriesExhaustedError(...)
  \<close>
  \<^verbatim>\<open>remaining_tries\<close> starts at \<^verbatim>\<open>maxtries\<close>, which is at least 1, and is only
  decremented while it is not 0: it is a natural number.  An exception of the wrapped
  function is not caught, so it leaves the wrapper (\<open>OpRaised\<close>).  \<^verbatim>\<open>time.sleep\<close> raises
  \<^verbatim>\<open>ValueError\<close> for a negative length.  \<open>Hung\<close> is a run whose random source ran out
  while a waiting time was computed.
\<close>

fun retry_loop ::
  "'r retry_args \<Rightarrow> (nat \<Rightarrow> string) \<Rightarrow> ('s \<Rightarrow> ('x + 'r) \<times> 's) \<Rightarrow> nat \<Rightarrow> nat \<Rightarrow>
   ('s, 'x, 'r) rworld \<Rightarrow> ('x, 'r) outcome \<times> ('s, 'x, 'r) rworld" where
  "retry_loop P msg call 0 failcount w = (Raised (MaxTriesExhaustedError (msg failcount)), w)"
| "retry_loop P msg call (Suc remaining_tries) failcount w =
     (case call (opstate w) of
        (res, s') \<Rightarrow>
          let w1 = w\<lparr>opstate := s', trace := trace w @ [Invoked res]\<rparr> in
          (case res of
             Inl x \<Rightarrow> (OpRaised x, w1)
           | Inr result \<Rightarrow>
               if validator P result then (Returned result, w1)
               else if delay P \<noteq> 0 \<and> remaining_tries \<noteq> 0 then
                 (case get_waiting_time P (Suc failcount) (rand w1) of
                    Error e \<Rightarrow> (Raised e, w1)
                  | Diverged \<Rightarrow> (Hung, w1)
                  | Value time_to_wait r' \<Rightarrow>
                      if time_to_wait < 0 then (Raised ValueError, w1\<lparr>rand := r'\<rparr>)
                      else retry_loop P msg call remaining_tries (Suc failcount)
                             (w1\<lparr>rand := r', trace := trace w1 @ [Slept time_to_wait]\<rparr>))
               else retry_loop P msg call remaining_tries (Suc failcount) w1))"

definition wrapper ::
  "'r retry_args \<Rightarrow> string \<Rightarrow> string list \<Rightarrow> (string \<times> string) list \<Rightarrow>
   ('s \<Rightarrow> ('x + 'r) \<times> 's) \<Rightarrow> ('s, 'x, 'r) rworld \<Rightarrow> ('x, 'r) outcome \<times> ('s, 'x, 'r) rworld" where
  "wrapper P func_name args kwargs call w =
     retry_loop P (exhausted_message func_name args kwargs) call (nat (maxtries P)) 0 w"

text \<open>
  What the wrapped function returns or raises on its next \<open>n\<close> calls from a state; used
  to state what a run of the wrapper has seen.
\<close>

fun run_calls :: "('s \<Rightarrow> ('x + 'r) \<times> 's) \<Rightarrow> 's \<Rightarrow> nat \<Rightarrow> ('x + 'r) list" where
  "run_calls call s 0 = []"
| "run_calls call s (Suc n) = (case call s of (res, s') \<Rightarrow> res # run_calls call s' n)"

text \<open>
  The invariant of the values captured by the closures, as lines 41-79 leave them.
\<close>

definition policy_ok :: "'r retry_args \<Rightarrow> bool" where
  "policy_ok P \<longleftrightarrow>
     1 \<le> maxtries P \<and> 0 \<le> delay P \<and> 0 \<le> jitterfactor P \<and> jitterfactor P \<le> 1 \<and>
     1 \<le> boexpbase P \<and>
     (delay P = 0 \<longrightarrow> jitterfactor P = 0 \<and> \<not> backoff P) \<and>
     (\<not> backoff P \<longrightarrow> boexpbase P = 1) \<and>
     (boexpbase P = 1 \<longrightarrow> \<not> borandom P)"

text \<open>
  Shapes of traces.  \<open>schedule us ts\<close> is the trace of rejected results \<open>us\<close>, each followed by
  a sleep of the length given in \<open>ts\<close>; \<open>attempts\<close> is the trace of the rejected attempts
  of a run, with the sleeps when \<^verbatim>\<open>delay\<close> is not 0 and without them otherwise;
  \<open>invocations\<close> and \<open>sleeps\<close> project a trace to the results of the calls and to the sleep
  lengths.  \<open>stop_outcome\<close> is how a run ends after its last call.  \<open>enough_draws P n r\<close> says
  that the random source \<open>r\<close> holds what \<open>n\<close> waiting times need: \<open>n\<close> indices when the
  exponent is random, and, when the delay is jittered, \<open>n\<close> draws of \<^verbatim>\<open>random.gauss\<close> that
  are all inside the smallest crop bound \<open>delay * jitterfactor\<close>.
\<close>

definition schedule :: "'r list \<Rightarrow> real list \<Rightarrow> ('x, 'r) event list" where
  "schedule us ts = concat (map (\<lambda>(u, t). [Invoked (Inr u), Slept t]) (zip us ts))"

definition stop_outcome ::
  "'r retry_args \<Rightarrow> ('x + 'r) \<Rightarrow> ('x, 'r) outcome \<Rightarrow> ('x, 'r) outcome" where
  "stop_outcome P final rejected =
     (case final of Inl x \<Rightarrow> OpRaised x
      | Inr v \<Rightarrow> if validator P v then Returned v else rejected)"

fun invocations :: "('x, 'r) event list \<Rightarrow> ('x + 'r) list" where
  "invocations [] = []"
| "invocations (Invoked res # evs) = res # invocations evs"
| "invocations (Slept t # evs) = invocations evs"

fun sleeps :: "('x, 'r) event list \<Rightarrow> real list" where
  "sleeps [] = []"
| "sleeps (Invoked res # evs) = sleeps evs"
| "sleeps (Slept t # evs) = t # sleeps evs"

definition attempts :: "'r retry_args \<Rightarrow> 'r list \<Rightarrow> real list \<Rightarrow> ('x, 'r) event list" where
  "attempts P us ts = (if delay P = 0 then map (\<lambda>u. Invoked (Inr u)) us else schedule us ts)"

definition enough_draws :: "'r retry_args \<Rightarrow> nat \<Rightarrow> rng \<Rightarrow> bool" where
  "enough_draws P n r \<longleftrightarrow>
     (jitterfactor P = 0 \<or>
        (n \<le> length (gauss_draws r) \<and> (\<forall>d \<in> set (gauss_draws r). \<bar>d\<bar> < delay P * jitterfactor P))) \<and>
     (\<not> borandom P \<or> n \<le> length (choice_draws r))"

text \<open>
  A concrete setting for the examples: a wrapped function that counts its calls and
  returns the count, one that raises on its third call, a validator that accepts only 5,
  the decorator arguments with \<^verbatim>\<open>maxtries = n\<close> and \<^verbatim>\<open>delay = d\<close> (and jitter, backoff and
  random exponent all switched on), the values the decorator keeps of them when the delay
  is 0, and the world before the first call.
\<close>

definition count_call :: "nat \<Rightarrow> (unit + nat) \<times> nat" where
  "count_call s = (Inr (Suc s), Suc s)"

definition fail_third :: "nat \<Rightarrow> (string + nat) \<times> nat" where
  "fail_third s = (if s = 2 then Inl ''IOError'' else Inr (Suc s), Suc s)"

definition accept5 :: "nat \<Rightarrow> bool" where
  "accept5 x \<longleftrightarrow> x = 5"

definition args_of :: "int \<Rightarrow> real \<Rightarrow> nat retry_args" where
  "args_of n d = \<lparr>validator = accept5, maxtries = n, delay = d, jitterfactor = 1,
                  backoff = True, boexpbase = 2, borandom = True\<rparr>"

definition world_of :: "rng \<Rightarrow> (nat, 'x, nat) rworld" where
  "world_of r = \<lparr>opstate = 0, rand = r, trace = []\<rparr>"

definition policy_of :: "int \<Rightarrow> nat retry_args" where
  "policy_of n = (args_of n 0)\<lparr>jitterfactor := 0, backoff := False, boexpbase := 1, borandom := False\<rparr>"

section \<open>The result cache (m2cache.py, and its copy in m2ools.py)\<close>

text \<open>
  An entry of the inventory is the dictionary \<^verbatim>\<open>{'dt': dt, 'cachefilename': cachefilename}\<close>.
  The inventory \<^verbatim>\<open>wrapper.cache_inventory\<close> maps a fingerprint to the list of its entries;
  it is a \<^verbatim>\<open>defaultdict(list)\<close>, but the wrapper reads it with \<^verbatim>\<open>in\<close>, with a subscript
  behind that test, and with \<^verbatim>\<open>.get\<close>, none of which inserts a missing key.  The storage
  maps the path of a file to the value persisted in it; \<^verbatim>\<open>pickle\<close> and the CSV functions of
  pandas are taken to give back what was written, and the storage to accept every write
  (the wrapper does not handle a failing write).  The world of a call holds the inventory,
  the storage, the clock that \<^verbatim>\<open>datetime.now()\<close> reads, the state the wrapped function
  works on, and the number of times the wrapped function was called.  The scan of the
  storage directory at decoration time (\<^verbatim>\<open>get_cache_inventory\<close>) is not part of the model:
  the claims are about calls, from any inventory.
\<close>

record entry =
  e_dt :: datetime
  e_cachefilename :: string

record cache_args =
  reachback :: string
  hoard :: bool
  cachedir :: string

record ('s, 'v) cache_world =
  cache_inventory :: "string \<rightharpoonup> entry list"
  storage :: "string \<rightharpoonup> 'v"
  clock :: datetime
  fstate :: 's
  invoked :: nat

text \<open>
  \<^verbatim>\<open>get_func_sig_hashed\<close>, lines 32-38.  The positional arguments come as their \<^verbatim>\<open>repr\<close>,
  the keyword arguments as pairs of the key and the \<^verbatim>\<open>repr\<close> of the value; \<open>sha1\<close> stands
  for \<^verbatim>\<open>hashlib.sha1(...).hexdigest()\<close> and is a parameter.
\<close>

definition get_func_sig_hashed ::
  "(string \<Rightarrow> string) \<Rightarrow> string \<Rightarrow> string list \<Rightarrow> (string \<times> string) list \<Rightarrow> string" where
  "get_func_sig_hashed sha1 name args kwargs =
     sha1 (name @ ''('' @ join '', '' (args @ map (\<lambda>(k, v). k @ ''='' @ v) kwargs) @ '')'')"

text \<open>\<^verbatim>\<open>os.path.join\<close> of two components, on POSIX.  Modelled from the Python library.\<close>

definition path_join :: "string \<Rightarrow> string \<Rightarrow> string" where
  "path_join a b =
     (if b \<noteq> [] \<and> hd b = CHR ''/'' then b
      else if a = [] \<or> last a = CHR ''/'' then a @ b
      else a @ ''/'' @ b)"

text \<open>
  \<^verbatim>\<open>to_cache\<close>, lines 41-54: the file is named after the function, the fingerprint and
  the reading of the clock, to the second; a data frame (\<open>is_dataframe\<close>, a parameter) is
  written as CSV, everything else is pickled.
\<close>

definition cache_file_name :: "('v \<Rightarrow> bool) \<Rightarrow> 'v \<Rightarrow> string \<Rightarrow> string \<Rightarrow> string \<Rightarrow> datetime \<Rightarrow> string" where
  "cache_file_name is_dataframe result cdir func_name func_sig_hashed t =
     path_join cdir (func_name @ ''_'' @ func_sig_hashed @ strftime_cache t)
       @ (if is_dataframe result then ''.csv'' else ''.pkl'')"

definition to_cache ::
  "('v \<Rightarrow> bool) \<Rightarrow> 'v \<Rightarrow> string \<Rightarrow> string \<Rightarrow> string \<Rightarrow> ('s, 'v) cache_world \<Rightarrow>
   (datetime \<times> string) \<times> ('s, 'v) cache_world" where
  "to_cache is_dataframe result cdir func_name func_sig_hashed w =
     (let t = clock w;
          cachefilename = cache_file_name is_dataframe result cdir func_name func_sig_hashed t
      in ((t, cachefilename), w\<lparr>storage := (storage w)(cachefilename \<mapsto> result)\<rparr>))"

text \<open>
  \<^verbatim>\<open>from_cache\<close>, lines 57-65: \<^verbatim>\<open>ext = cachefilename[-4:]\<close>; with another extension than
  \<^verbatim>\<open>.csv\<close> and \<^verbatim>\<open>.pkl\<close> no branch assigns \<^verbatim>\<open>result\<close>, and the \<^verbatim>\<open>return\<close> raises
  \<^verbatim>\<open>UnboundLocalError\<close>; opening a file that is not there raises \<^verbatim>\<open>FileNotFoundError\<close>.
\<close>

definition from_cache :: "string \<Rightarrow> ('s, 'v) cache_world \<Rightarrow> pyerror + 'v" where
  "from_cache cachefilename w =
     (let ext = drop (length cachefilename - 4) cachefilename
      in if ext = ''.csv'' \<or> ext = ''.pkl''
         then (case storage w cachefilename of
                 None \<Rightarrow> Inl FileNotFoundError
               | Some v \<Rightarrow> Inr v)
         else Inl UnboundLocalError)"

text \<open>
  \<^verbatim>\<open>max(entries, key=lambda d: d['dt'])\<close> on a list that is not empty: the first entry
  with the greatest timestamp.
\<close>

fun max_entry :: "entry \<Rightarrow> entry list \<Rightarrow> entry" where
  "max_entry best [] = best"
| "max_entry best (e # es) = max_entry (if dt_less (e_dt best) (e_dt e) then e else best) es"

text \<open>
  The test of lines 92-94,
  \<^verbatim>\<open>
    func_sig_hashed in wrapper.cache_inventory
      and (most_recent_cached_entry := max(...))['dt'] >= get_dt(reachback)
  \<close>
  \<open>Inr (Some e)\<close> is a hit on the entry \<open>e\<close>, \<open>Inr None\<close> a miss.  \<^verbatim>\<open>max\<close> raises
  \<^verbatim>\<open>ValueError\<close> on an empty list, and it is evaluated before \<^verbatim>\<open>get_dt\<close>; \<^verbatim>\<open>get_dt\<close> is
  not evaluated at all for a fingerprint that is not in the inventory.
\<close>

definition cache_lookup :: "cache_args \<Rightarrow> string \<Rightarrow> ('s, 'v) cache_world \<Rightarrow> pyerror + entry option" where
  "cache_lookup cfg func_sig_hashed w =
     (case cache_inventory w func_sig_hashed of
        None \<Rightarrow> Inr None
      | Some [] \<Rightarrow> Inl ValueError
      | Some (e # es) \<Rightarrow>
          let most_recent_cached_entry = max_entry e es in
          (case get_dt (reachback cfg) (clock w) of
             Inl err \<Rightarrow> Inl err
           | Inr cutoff \<Rightarrow>
               if dt_le cutoff (e_dt most_recent_cached_entry)
               then Inr (Some most_recent_cached_entry) else Inr None))"

text \<open>
  The loop \<^verbatim>\<open>for file in stale_files: os.remove(file)\<close>: \<^verbatim>\<open>os.remove\<close> raises
  \<^verbatim>\<open>FileNotFoundError\<close> for a file that is not there, and the files removed before stay
  removed.
\<close>

fun remove_files :: "string list \<Rightarrow> (string \<rightharpoonup> 'v) \<Rightarrow> pyerror option \<times> (string \<rightharpoonup> 'v)" where
  "remove_files [] st = (None, st)"
| "remove_files (f # fs) st =
     (case st f of
        None \<Rightarrow> (Some FileNotFoundError, st)
      | Some v \<Rightarrow> remove_files fs (st(f := None)))"

text \<open>
  The miss branch of the wrapper, lines 98-108.  The wrapped function
  \<^verbatim>\<open>func(*args, **kwargs)\<close> is a function \<open>call\<close> of its state and the clock, which gives
  what it returns (\<open>None\<close> for Python's \<^verbatim>\<open>None\<close>) or raises, its new state and the clock
  when it is done.  In
  \<^verbatim>\<open>
    wrapper.cache_inventory.get(func_sig_hashed, []).append({'dt': dt, 'cachefilename': cachefilename})
  \<close>
  the list that \<^verbatim>\<open>.get\<close> returns for a missing key is a new list, which is not stored in
  the inventory: the entry is appended to the inventory only when the key is there.
\<close>

definition entries_of :: "('s, 'v) cache_world \<Rightarrow> string \<Rightarrow> entry list" where
  "entries_of w func_sig_hashed =
     (case cache_inventory w func_sig_hashed of None \<Rightarrow> [] | Some es \<Rightarrow> es)"

definition cache_miss ::
  "('v \<Rightarrow> bool) \<Rightarrow> cache_args \<Rightarrow> string \<Rightarrow> ('s \<Rightarrow> datetime \<Rightarrow> ('x + 'v option) \<times> 's \<times> datetime) \<Rightarrow>
   string \<Rightarrow> ('s, 'v) cache_world \<Rightarrow> ('x, 'v option) outcome \<times> ('s, 'v) cache_world" where
  "cache_miss is_dataframe cfg func_name call func_sig_hashed w =
     (case call (fstate w) (clock w) of
        (res, s', now') \<Rightarrow>
          let w1 = w\<lparr>fstate := s', clock := now', invoked := Suc (invoked w)\<rparr> in
          (case res of
             Inl x \<Rightarrow> (OpRaised x, w1)
           | Inr None \<Rightarrow> (Returned None, w1)
           | Inr (Some result) \<Rightarrow>
               (case to_cache is_dataframe result (cachedir cfg) func_name func_sig_hashed w1 of
                  ((t, cachefilename), w2) \<Rightarrow>
                    let new = \<lparr>e_dt = t, e_cachefilename = cachefilename\<rparr> in
                    if \<not> hoard cfg then
                      let stale_files = map e_cachefilename (entries_of w2 func_sig_hashed) in
                      (case remove_files stale_files (storage w2) of
                         (Some err, st) \<Rightarrow> (Raised err, w2\<lparr>storage := st\<rparr>)
                       | (None, st) \<Rightarrow>
                           (Returned (Some result),
                            w2\<lparr>storage := st,
                               cache_inventory := (cache_inventory w2)(func_sig_hashed \<mapsto> [new])\<rparr>))
                    else
                      (Returned (Some result),
                       (case cache_inventory w2 func_sig_hashed of
                          None \<Rightarrow> w2
                        | Some es \<Rightarrow>
                            w2\<lparr>cache_inventory :=
                                 (cache_inventory w2)(func_sig_hashed \<mapsto> es @ [new])\<rparr>)))))"

text \<open>The wrapper of \<^verbatim>\<open>m2cache\<close>, lines 90-109.\<close>

definition cache_wrapper ::
  "(string \<Rightarrow> string) \<Rightarrow> ('v \<Rightarrow> bool) \<Rightarrow> cache_args \<Rightarrow> string \<Rightarrow>
   ('s \<Rightarrow> datetime \<Rightarrow> ('x + 'v option) \<times> 's \<times> datetime) \<Rightarrow> string list \<Rightarrow> (string \<times> string) list \<Rightarrow>
   ('s, 'v) cache_world \<Rightarrow> ('x, 'v option) outcome \<times> ('s, 'v) cache_world" where
  "cache_wrapper sha1 is_dataframe cfg func_name call args kwargs w =
     (let func_sig_hashed = get_func_sig_hashed sha1 func_name args kwargs in
      case cache_lookup cfg func_sig_hashed w of
        Inl err \<Rightarrow> (Raised err, w)
      | Inr (Some most_recent_cached_entry) \<Rightarrow>
          (case from_cache (e_cachefilename most_recent_cached_entry) w of
             Inl err \<Rightarrow> (Raised err, w)
           | Inr v \<Rightarrow> (Returned (Some v), w))
      | Inr None \<Rightarrow> cache_miss is_dataframe cfg func_name call func_sig_hashed w)"

text \<open>
  A concrete setting for the examples: a stand-in for the digest (the examples do not
  depend on what the digest is), a function that returns 42 and one that returns \<^verbatim>\<open>None\<close>,
  neither of which lets time pass, an empty cache on 31 March 2024, the cache one second
  after one result was written to it, and the arguments of the decorator with a cutoff in the year 9999 (every entry is stale) and with the
  default cutoff (no entry is stale).
\<close>

definition example_digest :: "string \<Rightarrow> string" where
  "example_digest s = ''sha1:'' @ s"

definition return_42 :: "unit \<Rightarrow> datetime \<Rightarrow> (unit + nat option) \<times> unit \<times> datetime" where
  "return_42 s t = (Inr (Some 42), s, t)"

definition return_None :: "unit \<Rightarrow> datetime \<Rightarrow> (unit + nat option) \<times> unit \<times> datetime" where
  "return_None s t = (Inr None, s, t)"

definition empty_cache :: "(unit, nat) cache_world" where
  "empty_cache = \<lparr>cache_inventory = Map.empty, storage = Map.empty, clock = now_example,
                   fstate = (), invoked = 0\<rparr>"

definition one_entry_cache :: "(unit, nat) cache_world" where
  "one_entry_cache =
     \<lparr>cache_inventory = [''sha1:f(1)'' \<mapsto>
        [\<lparr>e_dt = now_example, e_cachefilename = ''cache/f_sha1:f(1)_2024-03-31_010203.pkl''\<rparr>]],
      storage = [''cache/f_sha1:f(1)_2024-03-31_010203.pkl'' \<mapsto> 42],
      clock = now_example\<lparr>second := 4\<rparr>, fstate = (), invoked = 1\<rparr>"

definition cache_cfg :: "string \<Rightarrow> bool \<Rightarrow> cache_args" where
  "cache_cfg r h = \<lparr>reachback = r, hoard = h, cachedir = ''cache''\<rparr>"

definition no_dataframe :: "nat \<Rightarrow> bool" where
  "no_dataframe v = False"

section \<open>Properties of the sampling loop\<close>

lemma sample_loop_Some:
  "sample_loop std gs = Some (g, rest) \<Longrightarrow>
     \<bar>g\<bar> < std * JITTER_SIGMA_COUNT \<and>
     (\<exists>rejected. gs = rejected @ g # rest \<and>
        (\<forall>d \<in> set rejected. \<bar>d\<bar> \<ge> std * JITTER_SIGMA_COUNT))"
proof (induction gs)
  case Nil
  then show ?case by simp
next
  case (Cons a gs)
  show ?case
  proof (cases "\<bar>a\<bar> \<ge> std * JITTER_SIGMA_COUNT")
    case True
    with Cons.prems have "sample_loop std gs = Some (g, rest)" by simp
    from Cons.IH [OF this] obtain rejected where
      b: "\<bar>g\<bar> < std * JITTER_SIGMA_COUNT" and
      r: "gs = rejected @ g # rest" "\<forall>d \<in> set rejected. \<bar>d\<bar> \<ge> std * JITTER_SIGMA_COUNT"
      by blast
    from r True have "a # gs = (a # rejected) @ g # rest \<and>
        (\<forall>d \<in> set (a # rejected). \<bar>d\<bar> \<ge> std * JITTER_SIGMA_COUNT)"
      by simp
    with b show ?thesis by blast
  next
    case False
    with Cons.prems have "g = a" "rest = gs" by simp_all
    with False have "a # gs = [] @ g # rest \<and>
        (\<forall>d \<in> set []. \<bar>d\<bar> \<ge> std * JITTER_SIGMA_COUNT)" by simp
    moreover from False \<open>g = a\<close> have "\<bar>g\<bar> < std * JITTER_SIGMA_COUNT" by simp
    ultimately show ?thesis by blast
  qed
qed


lemma sample_loop_accepts:
  "\<forall>d \<in> set rejected. \<bar>d\<bar> \<ge> std * JITTER_SIGMA_COUNT \<Longrightarrow>
   \<bar>g\<bar> < std * JITTER_SIGMA_COUNT \<Longrightarrow>
   sample_loop std (rejected @ g # rest) = Some (g, rest)"
  by (induction rejected) auto

lemma sample_Value:
  assumes "sample std r = Value g r'"
  shows "\<exists>rejected. gauss_draws r = rejected @ g # gauss_draws r' \<and>
           (\<forall>d \<in> set rejected. \<bar>d\<bar> \<ge> std * JITTER_SIGMA_COUNT) \<and>
           \<bar>g\<bar> < std * JITTER_SIGMA_COUNT \<and>
           choice_draws r' = choice_draws r"
proof -
  from assms obtain gs where s: "sample_loop std (gauss_draws r) = Some (g, gs)"
    and r': "r' = r\<lparr>gauss_draws := gs\<rparr>"
    by (auto simp: sample_def split: option.splits)
  from sample_loop_Some [OF s] r' show ?thesis by auto
qed

lemma sample_no_Error: "sample std r \<noteq> Error e"
  by (simp add: sample_def split: option.splits prod.splits)


lemma std_times_count: "x / JITTER_SIGMA_COUNT * JITTER_SIGMA_COUNT = x"
  by (simp add: JITTER_SIGMA_COUNT_def)

lemma get_jittered_Value:
  assumes "v \<noteq> 0" and "0 < jf" and h: "get_jittered (Num v) (Num jf) r = Value x r'"
  shows "\<exists>rejected g. gauss_draws r = rejected @ g # gauss_draws r' \<and>
           (\<forall>d \<in> set rejected. \<bar>d\<bar> \<ge> \<bar>v\<bar> * jf) \<and> \<bar>g\<bar> < \<bar>v\<bar> * jf \<and> x = v + g \<and>
           choice_draws r' = choice_draws r"
proof -
  let ?std = "\<bar>v\<bar> * jf / JITTER_SIGMA_COUNT"
  have bound: "?std * JITTER_SIGMA_COUNT = \<bar>v\<bar> * jf"
    by (rule std_times_count)
  have gj: "get_jitter (Num v) (Num jf) r = sample ?std r"
    using assms by simp
  from h gj obtain g where s: "sample ?std r = Value g r'" and x: "x = v + g"
    by (auto simp: get_jittered_def split: result.splits)
  from sample_Value [OF s] bound x show ?thesis by auto
qed

section \<open>Claims on the jitter primitive\<close>



text \<open>
  C9 (as stated: a negative jitter factor or a non-numeric argument always raises).
  In m2ools.py a zero base value returns before the jitter factor is looked at, so
  \<^verbatim>\<open>get_jittered(0, -1)\<close> returns 0; in m2jitter.py a negative jitter factor is a
  no-op, so \<^verbatim>\<open>get_jittered(5, -1)\<close> returns 5.
\<close>

theorem jitter_negative_factor_counterexample:
  "m2ools_get_jittered (Num 0) (Num (- 1)) (rng0 []) = Value 0 (rng0 []) \<and>
   m2ools_get_jittered (Num 0) NonNum (rng0 []) = Value 0 (rng0 []) \<and>
   get_jittered (Num 5) (Num (- 1)) (rng0 []) = Value 5 (rng0 [])"
  by (simp add: m2ools_get_jittered_def get_jittered_def)

text \<open>
  C9 (amended).  In m2ools.py the jitter operation raises \<^verbatim>\<open>TypeError\<close> when the base
  value is not numeric; for a numeric base value other than 0 it raises \<^verbatim>\<open>ValueError\<close>
  when the jitter factor is negative and \<^verbatim>\<open>TypeError\<close> when it is not numeric; for the
  base value 0 it returns 0 whatever the jitter factor is, and for the jitter factor 0 it
  returns the numeric base value unchanged.  In m2jitter.py a non-numeric argument raises
  \<^verbatim>\<open>TypeError\<close>, and for numeric arguments a jitter factor \<open>\<le> 0\<close> or a base value 0
  returns the base value unchanged, with no error.  None of these cases reads the random
  source.
\<close>

theorem jitter_errors_and_noops:
  "m2ools_get_jittered NonNum jfv r = Error TypeError \<and>
   (v \<noteq> 0 \<and> jf < 0 \<longrightarrow> m2ools_get_jittered (Num v) (Num jf) r = Error ValueError) \<and>
   (v \<noteq> 0 \<longrightarrow> m2ools_get_jittered (Num v) NonNum r = Error TypeError) \<and>
   m2ools_get_jittered (Num 0) jfv r = Value 0 r \<and>
   m2ools_get_jittered (Num v) (Num 0) r = Value v r \<and>
   get_jittered val NonNum r = Error TypeError \<and>
   get_jittered NonNum jfv r = Error TypeError \<and>
   (jf \<le> 0 \<longrightarrow> get_jittered (Num v) (Num jf) r = Value v r) \<and>
   get_jittered (Num 0) (Num jf) r = Value 0 r"
proof -
  have "get_jittered NonNum jfv r = Error TypeError"
    by (cases jfv) (simp_all add: get_jittered_def)
  then show ?thesis
    by (simp add: m2ools_get_jittered_def get_jittered_def)
qed

theorem jitter_errors_and_noops_witness:
  "(5::real) \<noteq> 0 \<and> (- 1::real) < 0 \<and>
   m2ools_get_jittered (Num 5) (Num (- 1)) (rng0 [1]) = Error ValueError \<and>
   m2ools_get_jittered (Num 5) NonNum (rng0 [1]) = Error TypeError \<and>
   get_jittered (Num 5) (Num (- 1)) (rng0 [1]) = Value 5 (rng0 [1])"
  using jitter_errors_and_noops [of NonNum "rng0 [1]" 5 "- 1" NonNum] by simp

section \<open>Properties of the retry loop\<close>

lemma m2retry_Inr:
  assumes "m2retry a = Inr P"
  shows "policy_ok P" and "validator P = validator a" and "maxtries P = maxtries a"
    and "delay P = delay a"
  using assms
  by (auto simp: m2retry_def policy_ok_def Let_def split: if_splits)

lemma py_pow_pos: "1 \<le> b \<Longrightarrow> 0 < py_pow b e"
  by (simp add: py_pow_def)

lemma exponent_Suc:
  assumes "exponent P (Suc k) r = Value e r'"
  shows "0 \<le> e \<and> e \<le> int k \<and>
         (\<not> borandom P \<longrightarrow> e = int k \<and> r' = r) \<and>
         (borandom P \<longrightarrow> (\<exists>i rest. choice_draws r = i # rest \<and> e = int (i mod Suc k) \<and>
                              r' = r\<lparr>choice_draws := rest\<rparr>))"
proof (cases "borandom P")
  case False
  with assms show ?thesis by (simp add: exponent_def)
next
  case True
  with assms obtain i rest where c: "choice_draws r = i # rest"
    and e: "e = map int [0 ..< Suc k] ! (i mod Suc k)" and r': "r' = r\<lparr>choice_draws := rest\<rparr>"
    by (auto simp: exponent_def random_choice_def split: list.splits simp del: upt_Suc)
  have "i mod Suc k < Suc k" by simp
  then have "map int [0 ..< Suc k] ! (i mod Suc k) = int (i mod Suc k)"
    by (simp del: upt_Suc)
  with e have e': "e = int (i mod Suc k)" by simp
  have "i mod Suc k \<le> k" using \<open>i mod Suc k < Suc k\<close> by linarith
  with e' c r' True show ?thesis by auto
qed

lemma exponent_no_Error: "exponent P (Suc k) r \<noteq> Error e"
  by (auto simp: exponent_def random_choice_def split: list.splits simp del: upt_Suc)

lemma get_jittered_nonneg:
  assumes "0 < x" "0 \<le> jf" "jf \<le> 1"
  shows "get_jittered (Num x) (Num jf) r \<noteq> Error e"
    and "get_jittered (Num x) (Num jf) r = Value t r' \<Longrightarrow> 0 < t"
proof -
  show "get_jittered (Num x) (Num jf) r \<noteq> Error e"
    using assms sample_no_Error [of "\<bar>x\<bar> * jf / JITTER_SIGMA_COUNT" r]
    by (auto simp: get_jittered_def split: result.splits)
  show "0 < t" if h: "get_jittered (Num x) (Num jf) r = Value t r'"
  proof (cases "jf = 0")
    case True
    with h assms show ?thesis by (simp add: get_jittered_def)
  next
    case False
    with assms have jf: "0 < jf" and x: "x \<noteq> 0" by simp_all
    from get_jittered_Value [OF x jf h] obtain g where g: "\<bar>g\<bar> < \<bar>x\<bar> * jf" "t = x + g"
      by blast
    from assms have "\<bar>x\<bar> * jf \<le> x" by (simp add: mult_left_le)
    with g show ?thesis by linarith
  qed
qed

lemma get_waiting_time_ok:
  assumes "policy_ok P" and "0 < delay P"
  shows "get_waiting_time P (Suc k) r \<noteq> Error e"
    and "get_waiting_time P (Suc k) r = Value t r' \<Longrightarrow> 0 < t"
proof -
  have pos: "0 < py_pow (boexpbase P) x * delay P" for x
    using assms py_pow_pos [of "boexpbase P" x] by (simp add: policy_ok_def)
  have jf: "0 \<le> jitterfactor P" "jitterfactor P \<le> 1"
    using assms by (simp_all add: policy_ok_def)
  show "get_waiting_time P (Suc k) r \<noteq> Error e"
    using exponent_no_Error [of P k r] get_jittered_nonneg(1) [OF pos jf]
    by (auto simp: get_waiting_time_def split: result.splits)
  show "0 < t" if "get_waiting_time P (Suc k) r = Value t r'"
    using that get_jittered_nonneg(2) [OF pos jf]
    by (auto simp: get_waiting_time_def split: result.splits)
qed

lemma schedule_Nil [simp]: "schedule [] ts = []"
  by (simp add: schedule_def)

lemma schedule_Cons [simp]: "schedule (u # us) (t # ts) = Invoked (Inr u) # Slept t # schedule us ts"
  by (simp add: schedule_def)

lemma retry_loop_run_delay:
  assumes ok: "policy_ok P" and d: "0 < delay P"
  shows "retry_loop P msg call (Suc n) fc w = (out, w') \<Longrightarrow>
     \<exists>us ts final.
       trace w' = trace w @ schedule us ts @ [Invoked final] \<and>
       length ts = length us \<and> length us \<le> n \<and>
       (\<forall>u \<in> set us. \<not> validator P u) \<and>
       run_calls call (opstate w) (Suc (length us)) = map Inr us @ [final] \<and>
       (\<forall>k < length ts. \<exists>r r'. get_waiting_time P (Suc (fc + k)) r = Value (ts ! k) r') \<and>
       out = stop_outcome P final
               (if length us = n then Raised (MaxTriesExhaustedError (msg (Suc (fc + n)))) else Hung)"
proof (induction n arbitrary: fc w)
  case 0
  obtain res s' where c: "call (opstate w) = (res, s')" by (cases "call (opstate w)")
  let ?w1 = "w\<lparr>opstate := s', trace := trace w @ [Invoked res]\<rparr>"
  from 0 c have out: "out = stop_outcome P res (Raised (MaxTriesExhaustedError (msg (Suc fc))))"
    and w': "w' = ?w1"
    by (auto simp: stop_outcome_def Let_def split: sum.splits if_splits)
  have "trace w' = trace w @ schedule [] [] @ [Invoked res]" using w' by simp
  moreover have "run_calls call (opstate w) (Suc (length ([]::'c list))) = map Inr [] @ [res]"
    using c by simp
  ultimately show ?case using out
    by (intro exI [of _ "[]"] exI [of _ res]) simp
next
  case (Suc n)
  obtain res s' where c: "call (opstate w) = (res, s')" by (cases "call (opstate w)")
  let ?w1 = "w\<lparr>opstate := s', trace := trace w @ [Invoked res]\<rparr>"
  let ?exh = "Raised (MaxTriesExhaustedError (msg (Suc (fc + Suc n))))"
  have stop: ?case
    if out: "out = stop_outcome P res Hung" and w': "w' = ?w1"
  proof -
    have "trace w' = trace w @ schedule [] [] @ [Invoked res]" using w' by simp
    moreover have "run_calls call (opstate w) (Suc (length ([]::'c list))) = map Inr [] @ [res]"
      using c by simp
    ultimately show ?thesis using out
      by (intro exI [of _ "[]"] exI [of _ res]) simp
  qed
  show ?case
  proof (cases res)
    case (Inl x)
    with Suc.prems c have "out = stop_outcome P res Hung" "w' = ?w1"
      by (simp_all add: stop_outcome_def)
    then show ?thesis by (rule stop)
  next
    case (Inr u)
    show ?thesis
    proof (cases "validator P u")
      case True
      with Inr Suc.prems c have "out = stop_outcome P res Hung" "w' = ?w1"
        by (simp_all add: stop_outcome_def)
      then show ?thesis by (rule stop)
    next
      case False
      show ?thesis
      proof (cases "get_waiting_time P (Suc fc) (rand ?w1)")
        case (Error e)
        with get_waiting_time_ok(1) [OF ok d] show ?thesis by blast
      next
        case Diverged
        with False Inr Suc.prems c d have "out = stop_outcome P res Hung" "w' = ?w1"
          by (simp_all add: stop_outcome_def)
        then show ?thesis by (rule stop)
      next
        case (Value t r')
        from get_waiting_time_ok(2) [OF ok d Value] have t: "0 < t" .
        let ?w2 = "?w1\<lparr>rand := r', trace := trace ?w1 @ [Slept t]\<rparr>"
        from False Inr Suc.prems c d Value t
        have "retry_loop P msg call (Suc n) (Suc fc) ?w2 = (out, w')"
          by simp
        from Suc.IH [OF this] obtain us ts final where
          tr: "trace w' = trace ?w2 @ schedule us ts @ [Invoked final]" and
          len: "length ts = length us" "length us \<le> n" and
          rej: "\<forall>u \<in> set us. \<not> validator P u" and
          rc: "run_calls call (opstate ?w2) (Suc (length us)) = map Inr us @ [final]" and
          wt: "\<forall>k < length ts. \<exists>r r'. get_waiting_time P (Suc (Suc fc + k)) r = Value (ts ! k) r'" and
          out: "out = stop_outcome P final
               (if length us = n then Raised (MaxTriesExhaustedError (msg (Suc (Suc fc + n)))) else Hung)"
          by blast
        have tr': "trace w' = trace w @ schedule (u # us) (t # ts) @ [Invoked final]"
          using tr Inr by simp
        have rc': "run_calls call (opstate w) (Suc (length (u # us))) = map Inr (u # us) @ [final]"
          using rc c Inr by simp
        have wt': "\<forall>k < length (t # ts). \<exists>r r'.
                     get_waiting_time P (Suc (fc + k)) r = Value ((t # ts) ! k) r'"
        proof (intro allI impI)
          fix k assume k: "k < length (t # ts)"
          show "\<exists>r r'. get_waiting_time P (Suc (fc + k)) r = Value ((t # ts) ! k) r'"
          proof (cases k)
            case 0
            with Value show ?thesis by auto
          next
            case (Suc j)
            with k wt show ?thesis by simp
          qed
        qed
        have out': "out = stop_outcome P final
               (if length (u # us) = Suc n then ?exh else Hung)"
          using out by simp
        from tr' len rej False rc' wt' out' show ?thesis
          by (intro exI [of _ "u # us"] exI [of _ "t # ts"] exI [of _ final]) simp
      qed
    qed
  qed
qed

lemma retry_loop_run_nodelay:
  assumes d: "delay P = 0"
  shows "retry_loop P msg call (Suc n) fc w = (out, w') \<Longrightarrow>
     \<exists>us final.
       trace w' = trace w @ map (\<lambda>u. Invoked (Inr u)) us @ [Invoked final] \<and>
       length us \<le> n \<and>
       (\<forall>u \<in> set us. \<not> validator P u) \<and>
       run_calls call (opstate w) (Suc (length us)) = map Inr us @ [final] \<and>
       rand w' = rand w \<and>
       out = stop_outcome P final (Raised (MaxTriesExhaustedError (msg (Suc (fc + n))))) \<and>
       (out = Raised (MaxTriesExhaustedError (msg (Suc (fc + n)))) \<longrightarrow> length us = n)"
proof (induction n arbitrary: fc w)
  case 0
  obtain res s' where c: "call (opstate w) = (res, s')" by (cases "call (opstate w)")
  let ?w1 = "w\<lparr>opstate := s', trace := trace w @ [Invoked res]\<rparr>"
  from 0 c have out: "out = stop_outcome P res (Raised (MaxTriesExhaustedError (msg (Suc fc))))"
    and w': "w' = ?w1"
    by (auto simp: stop_outcome_def Let_def split: sum.splits if_splits)
  have "trace w' = trace w @ map (\<lambda>u. Invoked (Inr u)) [] @ [Invoked res]" using w' by simp
  moreover have "run_calls call (opstate w) (Suc (length ([]::'c list))) = map Inr [] @ [res]"
    using c by simp
  moreover have "rand w' = rand w" using w' by simp
  ultimately show ?case using out
    by (intro exI [of _ "[]"] exI [of _ res]) simp
next
  case (Suc n)
  obtain res s' where c: "call (opstate w) = (res, s')" by (cases "call (opstate w)")
  let ?w1 = "w\<lparr>opstate := s', trace := trace w @ [Invoked res]\<rparr>"
  let ?exh = "Raised (MaxTriesExhaustedError (msg (Suc (fc + Suc n))))"
  have stop: ?case
    if out: "out = stop_outcome P res ?exh" "out \<noteq> ?exh" and w': "w' = ?w1"
  proof -
    have "trace w' = trace w @ map (\<lambda>u. Invoked (Inr u)) [] @ [Invoked res]" using w' by simp
    moreover have "run_calls call (opstate w) (Suc (length ([]::'c list))) = map Inr [] @ [res]"
      using c by simp
    moreover have "rand w' = rand w" using w' by simp
    ultimately show ?thesis using out
      by (intro exI [of _ "[]"] exI [of _ res]) simp
  qed
  show ?case
  proof (cases res)
    case (Inl x)
    with Suc.prems c have "out = stop_outcome P res ?exh" "out \<noteq> ?exh" "w' = ?w1"
      by (auto simp: stop_outcome_def)
    then show ?thesis by (rule stop)
  next
    case (Inr u)
    show ?thesis
    proof (cases "validator P u")
      case True
      with Inr Suc.prems c have "out = stop_outcome P res ?exh" "out \<noteq> ?exh" "w' = ?w1"
        by (auto simp: stop_outcome_def)
      then show ?thesis by (rule stop)
    next
      case False
      from False Inr Suc.prems c d
      have "retry_loop P msg call (Suc n) (Suc fc) ?w1 = (out, w')"
        by simp
      from Suc.IH [OF this] obtain us final where
        tr: "trace w' = trace ?w1 @ map (\<lambda>u. Invoked (Inr u)) us @ [Invoked final]" and
        len: "length us \<le> n" and
        rej: "\<forall>u \<in> set us. \<not> validator P u" and
        rc: "run_calls call (opstate ?w1) (Suc (length us)) = map Inr us @ [final]" and
        rnd: "rand w' = rand ?w1" and
        out: "out = stop_outcome P final (Raised (MaxTriesExhaustedError (msg (Suc (Suc fc + n)))))" and
        ex: "out = Raised (MaxTriesExhaustedError (msg (Suc (Suc fc + n)))) \<longrightarrow> length us = n"
        by blast
      have tr': "trace w' = trace w @ map (\<lambda>u. Invoked (Inr u)) (u # us) @ [Invoked final]"
        using tr Inr by simp
      have rc': "run_calls call (opstate w) (Suc (length (u # us))) = map Inr (u # us) @ [final]"
        using rc c Inr by simp
      from tr' len rej False rc' rnd out ex show ?thesis
        by (intro exI [of _ "u # us"] exI [of _ final]) simp
    qed
  qed
qed

lemma invocations_append: "invocations (xs @ ys) = invocations xs @ invocations ys"
  by (induction xs rule: invocations.induct) auto

lemma sleeps_append: "sleeps (xs @ ys) = sleeps xs @ sleeps ys"
  by (induction xs rule: sleeps.induct) auto

lemma invocations_schedule: "length ts = length us \<Longrightarrow> invocations (schedule us ts) = map Inr us"
  by (induction us ts rule: list_induct2') auto

lemma sleeps_schedule: "length ts = length us \<Longrightarrow> sleeps (schedule us ts) = ts"
  by (induction us ts rule: list_induct2') auto

lemma invocations_map: "invocations (map (\<lambda>u. Invoked (Inr u)) us) = map Inr us"
  by (induction us) auto

lemma sleeps_map: "sleeps (map (\<lambda>u. Invoked (Inr u)) us) = []"
  by (induction us) auto

lemma invocations_attempts:
  "length ts = length us \<Longrightarrow> invocations (attempts P us ts) = map Inr us"
  by (simp add: attempts_def invocations_schedule invocations_map)

lemma sleeps_attempts:
  "length ts = length us \<Longrightarrow> sleeps (attempts P us ts) = (if delay P = 0 then [] else ts)"
  by (simp add: attempts_def sleeps_schedule sleeps_map)

lemma retry_loop_run:
  assumes ok: "policy_ok P" and run: "retry_loop P msg call (Suc n) fc w = (out, w')"
  shows "\<exists>us ts final.
       trace w' = trace w @ attempts P us ts @ [Invoked final] \<and>
       length ts = length us \<and> length us \<le> n \<and>
       (\<forall>u \<in> set us. \<not> validator P u) \<and>
       run_calls call (opstate w) (Suc (length us)) = map Inr us @ [final] \<and>
       (delay P \<noteq> 0 \<longrightarrow>
          (\<forall>k < length ts. \<exists>r r'. get_waiting_time P (Suc (fc + k)) r = Value (ts ! k) r')) \<and>
       out = stop_outcome P final
               (if length us = n then Raised (MaxTriesExhaustedError (msg (Suc (fc + n)))) else Hung)"
proof (cases "delay P = 0")
  case True
  let ?exh = "Raised (MaxTriesExhaustedError (msg (Suc (fc + n))))"
  from retry_loop_run_nodelay [OF True run] obtain us final where
    tr: "trace w' = trace w @ map (\<lambda>u. Invoked (Inr u)) us @ [Invoked final]" and
    len: "length us \<le> n" and
    rej: "\<forall>u \<in> set us. \<not> validator P u" and
    rc: "run_calls call (opstate w) (Suc (length us)) = map Inr us @ [final]" and
    out: "out = stop_outcome P final ?exh" and
    ex: "out = ?exh \<longrightarrow> length us = n"
    by blast
  have "out = stop_outcome P final (if length us = n then ?exh else Hung)"
    using out ex by (auto simp: stop_outcome_def split: sum.splits)
  with tr len rej rc True show ?thesis
    by (intro exI [of _ us] exI [of _ "replicate (length us) 0"] exI [of _ final])
       (simp add: attempts_def)
next
  case False
  with ok have d: "0 < delay P" by (simp add: policy_ok_def)
  from retry_loop_run_delay [OF ok d run] False show ?thesis
    by (simp add: attempts_def)
qed

lemma get_waiting_time_enough:
  assumes ok: "policy_ok P" and d: "0 < delay P" and en: "enough_draws P (Suc n) r"
  shows "\<exists>t r'. get_waiting_time P (Suc k) r = Value t r' \<and> enough_draws P n r'"
proof -
  have base: "1 \<le> boexpbase P" and jf: "0 \<le> jitterfactor P"
    using ok by (simp_all add: policy_ok_def)
  obtain e r1 where e: "exponent P (Suc k) r = Value e r1" and e0: "0 \<le> e"
    and g1: "gauss_draws r1 = gauss_draws r"
    and c1: "\<not> borandom P \<or> n \<le> length (choice_draws r1)"
  proof (cases "borandom P")
    case False
    then have "exponent P (Suc k) r = Value (int k) r" by (simp add: exponent_def)
    with False that show ?thesis by simp
  next
    case True
    with en obtain i rest where c: "choice_draws r = i # rest" and "n \<le> length rest"
      by (cases "choice_draws r") (auto simp: enough_draws_def)
    with True have "exponent P (Suc k) r =
        Value (map int [0 ..< Suc k] ! (i mod Suc k)) (r\<lparr>choice_draws := rest\<rparr>)"
      by (simp add: exponent_def random_choice_def del: upt_Suc)
    moreover from exponent_Suc [OF this] have "0 \<le> map int [0 ..< Suc k] ! (i mod Suc k)"
      by blast
    ultimately show ?thesis using that \<open>n \<le> length rest\<close> by simp
  qed
  let ?x = "py_pow (boexpbase P) e * delay P"
  have "1 \<le> py_pow (boexpbase P) e" using base e0 by (simp add: py_pow_def)
  with d have x: "delay P \<le> ?x" "0 < ?x" by (simp_all add: mult_pos_pos py_pow_pos base)
  show ?thesis
  proof (cases "jitterfactor P = 0")
    case True
    with e c1 show ?thesis
      by (simp add: get_waiting_time_def get_jittered_def enough_draws_def)
  next
    case False
    with jf have jfp: "0 < jitterfactor P" by simp
    from False en g1 obtain g gs where g: "gauss_draws r1 = g # gs" and
      gb: "\<bar>g\<bar> < delay P * jitterfactor P" and rest: "n \<le> length gs"
      "\<forall>d \<in> set gs. \<bar>d\<bar> < delay P * jitterfactor P"
      by (cases "gauss_draws r") (auto simp: enough_draws_def)
    from x jfp have "delay P * jitterfactor P \<le> \<bar>?x\<bar> * jitterfactor P"
      by (simp add: mult_right_mono)
    with gb have "\<bar>g\<bar> < \<bar>?x\<bar> * jitterfactor P / JITTER_SIGMA_COUNT * JITTER_SIGMA_COUNT"
      unfolding std_times_count by linarith
    then have "sample (\<bar>?x\<bar> * jitterfactor P / JITTER_SIGMA_COUNT) r1 = Value g (r1\<lparr>gauss_draws := gs\<rparr>)"
      using g by (simp add: sample_def)
    with e x jfp d py_pow_pos [OF base, of e]
    have "get_waiting_time P (Suc k) r = Value (?x + g) (r1\<lparr>gauss_draws := gs\<rparr>)"
      by (simp add: get_waiting_time_def get_jittered_def)
    moreover have "enough_draws P n (r1\<lparr>gauss_draws := gs\<rparr>)"
      using rest c1 by (simp add: enough_draws_def)
    ultimately show ?thesis by blast
  qed
qed

lemma enough_draws_mono: "enough_draws P (Suc n) r \<Longrightarrow> enough_draws P n r"
  by (auto simp: enough_draws_def)

lemma retry_loop_not_hung:
  assumes ok: "policy_ok P"
  shows "enough_draws P n (rand w) \<Longrightarrow> fst (retry_loop P msg call (Suc n) fc w) \<noteq> Hung"
proof (induction n arbitrary: fc w)
  case 0
  show ?case
    by (auto simp: Let_def split: prod.splits sum.splits)
next
  case (Suc n)
  obtain res s' where c: "call (opstate w) = (res, s')" by (cases "call (opstate w)")
  let ?w1 = "w\<lparr>opstate := s', trace := trace w @ [Invoked res]\<rparr>"
  show ?case
  proof (cases res)
    case (Inl x)
    with c show ?thesis by simp
  next
    case (Inr u)
    show ?thesis
    proof (cases "validator P u")
      case True
      with Inr c show ?thesis by simp
    next
      case False
      show ?thesis
      proof (cases "delay P = 0")
        case True
        have "enough_draws P n (rand ?w1)" using Suc.prems by (simp add: enough_draws_mono)
        from Suc.IH [OF this] True False Inr c show ?thesis by simp
      next
        case d0: False
        with ok have d: "0 < delay P" by (simp add: policy_ok_def)
        have "enough_draws P (Suc n) (rand ?w1)" using Suc.prems by simp
        from get_waiting_time_enough [OF ok d this] obtain t r' where
          wt: "get_waiting_time P (Suc fc) (rand ?w1) = Value t r'" and en: "enough_draws P n r'"
          by blast
        from get_waiting_time_ok(2) [OF ok d wt] have t: "0 < t" .
        let ?w2 = "?w1\<lparr>rand := r', trace := trace ?w1 @ [Slept t]\<rparr>"
        have "enough_draws P n (rand ?w2)" using en by simp
        from Suc.IH [OF this] have "fst (retry_loop P msg call (Suc n) (Suc fc) ?w2) \<noteq> Hung" .
        with False Inr c d0 wt t show ?thesis by simp
      qed
    qed
  qed
qed

lemma run_calls_take: "take m (run_calls call s n) = run_calls call s (min m n)"
proof (induction n arbitrary: m s)
  case 0
  then show ?case by simp
next
  case (Suc n)
  show ?case
  proof (cases m)
    case 0
    then show ?thesis by simp
  next
    case (Suc j)
    with Suc.IH show ?thesis by (simp split: prod.splits)
  qed
qed

lemma length_run_calls [simp]: "length (run_calls call s n) = n"
  by (induction n arbitrary: s) (auto split: prod.splits)

lemma wrapper_run:
  assumes m: "m2retry a = Inr P" and run: "wrapper P func_name args kwargs call w = (out, w')"
  shows "\<exists>us ts final.
       trace w' = trace w @ attempts P us ts @ [Invoked final] \<and>
       length ts = length us \<and> int (length us) < maxtries a \<and>
       (\<forall>u \<in> set us. \<not> validator a u) \<and>
       run_calls call (opstate w) (Suc (length us)) = map Inr us @ [final] \<and>
       (delay a \<noteq> 0 \<longrightarrow>
          (\<forall>k < length ts. \<exists>r r'. get_waiting_time P (Suc k) r = Value (ts ! k) r')) \<and>
       out = stop_outcome P final
               (if int (length us) + 1 = maxtries a
                then Raised (MaxTriesExhaustedError
                       (exhausted_message func_name args kwargs (nat (maxtries a))))
                else Hung)"
proof -
  from m2retry_Inr [OF m] have ok: "policy_ok P" and eqs: "validator P = validator a"
    "maxtries P = maxtries a" "delay P = delay a" by simp_all
  from ok eqs obtain n where n: "nat (maxtries a) = Suc n"
    by (cases "nat (maxtries a)") (auto simp: policy_ok_def)
  then have n': "maxtries a = int n + 1" by linarith
  from run n eqs have "retry_loop P (exhausted_message func_name args kwargs) call (Suc n) 0 w = (out, w')"
    by (simp add: wrapper_def)
  from retry_loop_run [OF ok this] obtain us ts final where
    "trace w' = trace w @ attempts P us ts @ [Invoked final]"
    "length ts = length us" "length us \<le> n"
    "\<forall>u \<in> set us. \<not> validator P u"
    "run_calls call (opstate w) (Suc (length us)) = map Inr us @ [final]"
    "delay P \<noteq> 0 \<longrightarrow>
          (\<forall>k < length ts. \<exists>r r'. get_waiting_time P (Suc (0 + k)) r = Value (ts ! k) r')"
    "out = stop_outcome P final
               (if length us = n
                then Raised (MaxTriesExhaustedError (exhausted_message func_name args kwargs (Suc (0 + n))))
                else Hung)"
    by blast
  with eqs n n' show ?thesis
    by (intro exI [of _ us] exI [of _ ts] exI [of _ final]) auto
qed

lemma run_calls_compare:
  assumes a: "run_calls call s (Suc k) = map Inr us0 @ [fin0]"
    and b: "run_calls call s (Suc (length us)) = map Inr us @ [final]"
    and lt: "length us < k"
  shows "final = Inr (us0 ! length us)" and "length us < length us0"
proof -
  have "length (map Inr us0 @ [fin0]) = Suc k"
    unfolding a [symmetric] by (rule length_run_calls)
  then have k: "length us0 = k" by simp
  with lt show "length us < length us0" by simp
  have "take (Suc (length us)) (run_calls call s (Suc k)) = run_calls call s (Suc (length us))"
    using lt by (simp add: run_calls_take min_def del: run_calls.simps)
  with a b have "take (Suc (length us)) (map Inr us0 @ [fin0]) = map Inr us @ [final]" by simp
  then have "take (Suc (length us)) (map Inr us0 @ [fin0]) ! length us = (map Inr us @ [final]) ! length us"
    by simp
  moreover have "(map Inr us @ [final]) ! length us = final"
    by (simp add: nth_append)
  moreover have "take (Suc (length us)) (map Inr us0 @ [fin0]) ! length us = Inr (us0 ! length us)"
    using lt k by (simp add: nth_append)
  ultimately show "final = Inr (us0 ! length us)" by simp
qed

lemma run_calls_same:
  assumes a: "run_calls call s (Suc k) = map Inr us0 @ [fin0]"
    and b: "run_calls call s (Suc (length us)) = map Inr us @ [final]"
    and eq: "length us = k"
  shows "final = fin0"
proof -
  from a b eq have "map Inr us0 @ [fin0] = map Inr us @ [final]" by simp
  then show ?thesis by simp
qed

lemma run_calls_first_stop:
  assumes a: "run_calls call s (Suc k) = map Inr us0 @ [fin0]"
    and rej0: "\<forall>u \<in> set us0. \<not> V u"
    and b: "run_calls call s (Suc (length us)) = map Inr us @ [final]"
    and rej: "\<forall>u \<in> set us. \<not> V u"
    and stop: "\<forall>u. fin0 = Inr u \<longrightarrow> V u"
  shows "length us \<le> k"
    and "length us = k \<Longrightarrow> final = fin0"
    and "length us < k \<Longrightarrow> \<exists>u. final = Inr u \<and> \<not> V u"
proof -
  show "length us \<le> k"
  proof (rule ccontr)
    assume "\<not> length us \<le> k"
    then have gt: "k < length us" by simp
    have "length (map Inr us0 @ [fin0]) = Suc k"
      unfolding a [symmetric] by (rule length_run_calls)
    then have k: "length us0 = k" by simp
    from run_calls_compare [OF b, of us0 fin0] a k gt
    have "fin0 = Inr (us ! length us0)" by simp
    moreover from gt k have "us ! length us0 \<in> set us" by simp
    ultimately show False using rej stop by blast
  qed
  show "final = fin0" if "length us = k"
    using run_calls_same [OF a b that] .
  show "\<exists>u. final = Inr u \<and> \<not> V u" if "length us < k"
  proof -
    from run_calls_compare [OF a b that] have f: "final = Inr (us0 ! length us)"
      and l: "length us < length us0" by simp_all
    from l have "us0 ! length us \<in> set us0" by simp
    with f rej0 show ?thesis by blast
  qed
qed

lemma get_waiting_time_Value:
  assumes "get_waiting_time P (Suc k) r = Value t r'"
  shows "\<exists>e r1. exponent P (Suc k) r = Value e r1 \<and> 0 \<le> e \<and>
           get_jittered (Num (boexpbase P ^ nat e * delay P)) (Num (jitterfactor P)) r1 = Value t r' \<and>
           (if borandom P then e \<in> set (map int [0 ..< Suc k]) else e = int (Suc k) - 1)"
proof -
  from assms obtain e r1 where e: "exponent P (Suc k) r = Value e r1"
    and j: "get_jittered (Num (py_pow (boexpbase P) e * delay P)) (Num (jitterfactor P)) r1 = Value t r'"
    by (auto simp: get_waiting_time_def split: result.splits)
  from exponent_Suc [OF e] have e0: "0 \<le> e" and ek: "e \<le> int k"
    and nr: "\<not> borandom P \<longrightarrow> e = int k" by blast+
  from e0 ek have "nat e \<in> {0 ..< Suc k}" by simp
  then have "int (nat e) \<in> int ` {0 ..< Suc k}" by (rule imageI)
  moreover have "set (map int [0 ..< Suc k]) = int ` {0 ..< Suc k}" by (simp del: upt_Suc)
  ultimately have mem: "e \<in> set (map int [0 ..< Suc k])" using e0 by simp
  from e0 have "py_pow (boexpbase P) e = boexpbase P ^ nat e" by (simp add: py_pow_def)
  with e j e0 mem nr show ?thesis by auto
qed

section \<open>Properties of the reachback parser\<close>

lemma py_datetime_valid:
  "py_datetime y mo d h mi s =
     (if valid_datetime y mo d h mi s
      then Inr \<lparr>year = y, month = mo, day = d, hour = h, minute = mi, second = s, microsecond = 0\<rparr>
      else Inl ValueError)"
  by (auto simp: py_datetime_def valid_datetime_def)




lemma get_dt_absolute:
  assumes "match_datetime s = Some gs"
  shows "get_dt s now =
     (if valid_datetime (group_or 1 (gs ! 0)) (group_or 1 (gs ! 1)) (group_or 1 (gs ! 2))
            (group_or 0 (gs ! 3)) (group_or 0 (gs ! 4)) (group_or 0 (gs ! 5))
      then Inr \<lparr>year = group_or 1 (gs ! 0), month = group_or 1 (gs ! 1), day = group_or 1 (gs ! 2),
                hour = group_or 0 (gs ! 3), minute = group_or 0 (gs ! 4),
                second = group_or 0 (gs ! 5), microsecond = 0\<rparr>
      else Inl ValueError)"
  using assms by (simp add: get_dt_def py_datetime_valid)



lemma or_else_simps [simp]: "or_else (Some x) b = Some x" "or_else None b = b"
  by (simp_all add: or_else_def)

lemma group_at_Nil [simp]: "group_at n [] = None"
  by (simp add: group_at_def)















section \<open>Properties of the cache\<close>

lemma remove_files_all:
  "distinct fs \<Longrightarrow> \<forall>f \<in> set fs. st f \<noteq> None \<Longrightarrow>
   remove_files fs st = (None, \<lambda>p. if p \<in> set fs then None else st p)"
proof (induction fs arbitrary: st)
  case Nil
  then show ?case by simp
next
  case (Cons f fs)
  from Cons.prems obtain v where v: "st f = Some v" by auto
  have d: "distinct fs" and nf: "f \<notin> set fs" using Cons.prems by simp_all
  have ex: "\<forall>g \<in> set fs. (st(f := None)) g \<noteq> None"
    using Cons.prems nf by auto
  have "remove_files (f # fs) st = remove_files fs (st(f := None))"
    using v by simp
  also have "\<dots> = (None, \<lambda>p. if p \<in> set fs then None else (st(f := None)) p)"
    by (rule Cons.IH [OF d ex])
  also have "(\<lambda>p. if p \<in> set fs then None else (st(f := None)) p) =
             (\<lambda>p. if p \<in> set (f # fs) then None else st p)"
    by auto
  finally show ?case .
qed

lemma cache_file_name_ext:
  "drop (length (cache_file_name isdf v dir name fp t) - 4) (cache_file_name isdf v dir name fp t) = ''.csv'' \<or>
   drop (length (cache_file_name isdf v dir name fp t) - 4) (cache_file_name isdf v dir name fp t) = ''.pkl''"
  by (simp add: cache_file_name_def)

lemma cache_miss_single_version:
  assumes call: "call (fstate w) (clock w) = (Inr (Some v), s', t')"
    and nh: "\<not> hoard cfg"
    and d: "distinct (map e_cachefilename (entries_of w fp))"
    and ex: "\<forall>p \<in> set (map e_cachefilename (entries_of w fp)). storage w p \<noteq> None"
    and new: "cache_file_name isdf v (cachedir cfg) name fp t' \<notin> set (map e_cachefilename (entries_of w fp))"
  shows "cache_miss isdf cfg name call fp w =
     (Returned (Some v),
      w\<lparr>fstate := s', clock := t', invoked := Suc (invoked w),
        storage := (\<lambda>p. if p \<in> set (map e_cachefilename (entries_of w fp)) then None
                         else ((storage w)(cache_file_name isdf v (cachedir cfg) name fp t' \<mapsto> v)) p),
        cache_inventory := (cache_inventory w)(fp \<mapsto>
           [\<lparr>e_dt = t', e_cachefilename = cache_file_name isdf v (cachedir cfg) name fp t'\<rparr>])\<rparr>)"
proof -
  let ?newf = "cache_file_name isdf v (cachedir cfg) name fp t'"
  let ?rec = "map e_cachefilename (entries_of w fp)"
  let ?st = "(storage w)(?newf \<mapsto> v)"
  let ?w1 = "w\<lparr>fstate := s', clock := t', invoked := Suc (invoked w)\<rparr>"
  have ex': "\<forall>f \<in> set ?rec. ?st f \<noteq> None" using ex by simp
  note rm = remove_files_all [OF d ex']
  have tc: "to_cache isdf v (cachedir cfg) name fp ?w1 = ((t', ?newf), ?w1\<lparr>storage := ?st\<rparr>)"
    by (simp add: to_cache_def Let_def)
  have e2: "entries_of (?w1\<lparr>storage := ?st\<rparr>) fp = entries_of w fp"
    by (simp add: entries_of_def)
  have st2: "storage (?w1\<lparr>storage := ?st\<rparr>) = ?st" by simp
  show ?thesis
    unfolding cache_miss_def call prod.case Let_def sum.case option.case tc e2 st2 rm
    using nh by simp
qed

lemma cache_miss_hoard:
  assumes call: "call (fstate w) (clock w) = (Inr (Some v), s', t')"
    and h: "hoard cfg"
  shows "cache_miss isdf cfg name call fp w =
     (Returned (Some v),
      w\<lparr>fstate := s', clock := t', invoked := Suc (invoked w),
        storage := (storage w)(cache_file_name isdf v (cachedir cfg) name fp t' \<mapsto> v),
        cache_inventory :=
          (case cache_inventory w fp of
             None \<Rightarrow> cache_inventory w
           | Some es \<Rightarrow> (cache_inventory w)(fp \<mapsto> es @
               [\<lparr>e_dt = t', e_cachefilename = cache_file_name isdf v (cachedir cfg) name fp t'\<rparr>]))\<rparr>)"
  using call h
  by (simp add: cache_miss_def to_cache_def Let_def split: option.splits)

lemma cache_miss_invoked:
  "invoked (snd (cache_miss isdf cfg name call fp w)) = Suc (invoked w)"
  by (simp add: cache_miss_def to_cache_def Let_def
      split: prod.splits sum.splits option.splits)

lemma cache_wrapper_miss:
  "cache_lookup cfg (get_func_sig_hashed sha1 name args kwargs) w = Inr None \<Longrightarrow>
   cache_wrapper sha1 isdf cfg name call args kwargs w =
     cache_miss isdf cfg name call (get_func_sig_hashed sha1 name args kwargs) w"
  by (simp add: cache_wrapper_def Let_def)

lemma cache_wrapper_hit:
  assumes "cache_lookup cfg (get_func_sig_hashed sha1 name args kwargs) w = Inr (Some e)"
    and "storage w (e_cachefilename e) = Some v"
    and "drop (length (e_cachefilename e) - 4) (e_cachefilename e) = ''.csv'' \<or>
         drop (length (e_cachefilename e) - 4) (e_cachefilename e) = ''.pkl''"
  shows "cache_wrapper sha1 isdf cfg name call args kwargs w = (Returned (Some v), w)"
  using assms by (auto simp: cache_wrapper_def Let_def from_cache_def)

lemma cache_lookup_hit:
  assumes "cache_inventory w fp = Some (e # es)"
    and "get_dt (reachback cfg) (clock w) = Inr cutoff"
    and "dt_le cutoff (e_dt (max_entry e es))"
  shows "cache_lookup cfg fp w = Inr (Some (max_entry e es))"
  using assms by (simp add: cache_lookup_def Let_def)

lemma cache_lookup_miss:
  assumes "cache_inventory w fp = None \<or>
           (cache_inventory w fp = Some (e # es) \<and> get_dt (reachback cfg) (clock w) = Inr cutoff \<and>
            dt_less (e_dt (max_entry e es)) cutoff)"
  shows "cache_lookup cfg fp w = Inr None"
  using assms by (auto simp: cache_lookup_def Let_def dt_less_def)

text \<open>The examples, evaluated.\<close>

lemma ex_fp: "get_func_sig_hashed example_digest ''f'' [''1''] [] = ''sha1:f(1)''"
  by (simp add: get_func_sig_hashed_def example_digest_def)

lemma ex_file: "cache_file_name no_dataframe (42::nat) ''cache'' ''f'' ''sha1:f(1)'' now_example =
    ''cache/f_sha1:f(1)_2024-03-31_010203.pkl''"
  by code_simp

lemma ex_file4: "cache_file_name no_dataframe (42::nat) ''cache'' ''f'' ''sha1:f(1)'' (now_example\<lparr>second := 4\<rparr>) =
    ''cache/f_sha1:f(1)_2024-03-31_010204.pkl''"
  by code_simp

lemma ex_9999: "get_dt ''9999'' t =
    Inr \<lparr>year = 9999, month = 1, day = 1, hour = 0, minute = 0, second = 0, microsecond = 0\<rparr>"
proof -
  have "match_datetime ''9999'' = Some [Some ''9999'', None, None, None, None, None]" by code_simp
  from get_dt_absolute [OF this, of t] show ?thesis
    by (simp add: group_or_def int_of_digits_def digit_val_def valid_datetime_def
        days_in_month_def DAYS_IN_MONTH_def)
qed

lemma ex_min: "get_dt ''0001-01-01'' t =
    Inr \<lparr>year = 1, month = 1, day = 1, hour = 0, minute = 0, second = 0, microsecond = 0\<rparr>"
proof -
  have "match_datetime ''0001-01-01'' = Some [Some ''0001'', Some ''01'', Some ''01'', None, None, None]"
    by code_simp
  from get_dt_absolute [OF this, of t] show ?thesis
    by (simp add: group_or_def int_of_digits_def digit_val_def valid_datetime_def
        days_in_month_def DAYS_IN_MONTH_def)
qed

lemma ex_ext: "drop (length ''cache/f_sha1:f(1)_2024-03-31_010203.pkl'' - 4)
    ''cache/f_sha1:f(1)_2024-03-31_010203.pkl'' = ''.pkl''"
  by simp

lemma ex_stale: "dt_le \<lparr>year = 9999, month = 1, day = 1, hour = 0, minute = 0, second = 0, microsecond = 0\<rparr>
    now_example = False"
  "dt_le \<lparr>year = 9999, month = 1, day = 1, hour = 0, minute = 0, second = 0, microsecond = 0\<rparr>
    (now_example\<lparr>second := 4\<rparr>) = False"
  by code_simp+

lemma ex_fresh: "dt_le \<lparr>year = 1, month = 1, day = 1, hour = 0, minute = 0, second = 0, microsecond = 0\<rparr>
    now_example = True"
  by code_simp

lemmas cache_eval = cache_wrapper_def cache_lookup_def cache_miss_def to_cache_def from_cache_def
  entries_of_def Let_def ex_fp ex_file ex_file4 ex_9999 ex_min ex_stale ex_fresh cache_cfg_def
  empty_cache_def return_42_def return_None_def

section \<open>Claims on the retry engine\<close>

text \<open>
  C4.  For arguments that the decorator accepts (\<open>m2retry a = Inr P\<close>), a run of the
  wrapper calls the wrapped function at least once and at most \<^verbatim>\<open>maxtries\<close> times, on
  consecutive states; every call but the last returned a result that the validator
  rejects, and the last call is the last event of the run.  The run returns \<open>v\<close> exactly
  when the last call returned \<open>v\<close> and the validator accepts it: the first accepted
  result is returned at once.  It raises exactly when \<^verbatim>\<open>maxtries\<close> calls were made and
  the last result is rejected too, and the exception is \<^verbatim>\<open>MaxTriesExhaustedError\<close> with
  the text of line 107, which starts with the name of the function and its positional
  arguments.  So when the results of the calls are rejected up to the \<open>k + 1\<close>-th, which
  is accepted, the run returns that result after \<open>k + 1\<close> calls if \<open>k < maxtries\<close>, and
  raises after \<^verbatim>\<open>maxtries\<close> calls otherwise (a validator that accepts only the 5th result:
  \<^verbatim>\<open>maxtries = 5\<close> returns it, \<^verbatim>\<open>maxtries = 4\<close> raises).  A run ends as \<open>Hung\<close> only when
  the random source runs out while a waiting time is computed; with enough draws it does
  not.
\<close>

theorem retry_wrapper_result:
  assumes m: "m2retry a = Inr P"
    and run: "wrapper P func_name args kwargs call w = (out, w')"
  shows "\<exists>evs.
       trace w' = trace w @ evs \<and>
       1 \<le> length (invocations evs) \<and> int (length (invocations evs)) \<le> maxtries a \<and>
       invocations evs = run_calls call (opstate w) (length (invocations evs)) \<and>
       (\<forall>res \<in> set (butlast (invocations evs)). \<exists>u. res = Inr u \<and> \<not> validator a u) \<and>
       last evs = Invoked (last (invocations evs)) \<and>
       (\<forall>v. out = Returned v \<longleftrightarrow> last (invocations evs) = Inr v \<and> validator a v) \<and>
       (\<forall>e. out = Raised e \<longleftrightarrow>
              e = MaxTriesExhaustedError (exhausted_message func_name args kwargs (nat (maxtries a))) \<and>
              int (length (invocations evs)) = maxtries a \<and>
              (\<exists>u. last (invocations evs) = Inr u \<and> \<not> validator a u)) \<and>
       (\<exists>rest. exhausted_message func_name args kwargs (nat (maxtries a)) =
                 func_name @ ''('' @ join '', '' args @ rest) \<and>
       (enough_draws P (nat (maxtries a)) (rand w) \<longrightarrow> out \<noteq> Hung) \<and>
       (\<forall>k us v. run_calls call (opstate w) (Suc k) = map Inr us @ [Inr v] \<and>
                 (\<forall>u \<in> set us. \<not> validator a u) \<and> validator a v \<and> out \<noteq> Hung \<longrightarrow>
            (int k < maxtries a \<longrightarrow> out = Returned v \<and> length (invocations evs) = Suc k) \<and>
            (maxtries a \<le> int k \<longrightarrow>
               out = Raised (MaxTriesExhaustedError
                        (exhausted_message func_name args kwargs (nat (maxtries a)))) \<and>
               int (length (invocations evs)) = maxtries a))"
proof -
  let ?exh = "Raised (MaxTriesExhaustedError
                       (exhausted_message func_name args kwargs (nat (maxtries a))))"
  from m2retry_Inr [OF m] have ok: "policy_ok P" and V: "validator P = validator a"
    and mt: "maxtries P = maxtries a" by simp_all
  from wrapper_run [OF m run] obtain us ts final where
    tr: "trace w' = trace w @ attempts P us ts @ [Invoked final]" and
    len: "length ts = length us" "int (length us) < maxtries a" and
    rej: "\<forall>u \<in> set us. \<not> validator a u" and
    rc: "run_calls call (opstate w) (Suc (length us)) = map Inr us @ [final]" and
    out: "out = stop_outcome P final (if int (length us) + 1 = maxtries a then ?exh else Hung)"
    by blast
  let ?evs = "attempts P us ts @ [Invoked final]"
  have inv: "invocations ?evs = map Inr us @ [final]"
    using len by (simp add: invocations_append invocations_attempts)
  have li: "last (invocations ?evs) = final" and ll: "int (length (invocations ?evs)) = int (length us) + 1"
    using inv by simp_all
  have c1: "1 \<le> length (invocations ?evs)" "int (length (invocations ?evs)) \<le> maxtries a"
    using len inv by simp_all
  have c2: "invocations ?evs = run_calls call (opstate w) (length (invocations ?evs))"
    using rc inv by simp
  have c3: "\<forall>res \<in> set (butlast (invocations ?evs)). \<exists>u. res = Inr u \<and> \<not> validator a u"
    using rej inv by auto
  have c4: "last ?evs = Invoked (last (invocations ?evs))"
    using inv by simp
  have c5: "\<forall>v. out = Returned v \<longleftrightarrow> last (invocations ?evs) = Inr v \<and> validator a v"
    unfolding out li V [symmetric] by (cases final) (auto simp: stop_outcome_def)
  have c6: "\<forall>e. out = Raised e \<longleftrightarrow>
              e = MaxTriesExhaustedError (exhausted_message func_name args kwargs (nat (maxtries a))) \<and>
              int (length (invocations ?evs)) = maxtries a \<and>
              (\<exists>u. last (invocations ?evs) = Inr u \<and> \<not> validator a u)"
    unfolding out li ll V [symmetric] by (cases final) (auto simp: stop_outcome_def)
  have c7: "\<exists>rest. exhausted_message func_name args kwargs (nat (maxtries a)) =
                 func_name @ ''('' @ join '', '' args @ rest"
    by (simp add: exhausted_message_def)
  have c8: "enough_draws P (nat (maxtries a)) (rand w) \<longrightarrow> out \<noteq> Hung"
  proof
    assume en: "enough_draws P (nat (maxtries a)) (rand w)"
    from ok mt obtain n where n: "nat (maxtries a) = Suc n"
      by (cases "nat (maxtries a)") (auto simp: policy_ok_def)
    from en n have "enough_draws P n (rand w)" by (simp add: enough_draws_mono)
    from retry_loop_not_hung [OF ok this, of "exhausted_message func_name args kwargs" call 0]
    show "out \<noteq> Hung" using run n mt by (simp add: wrapper_def)
  qed
  have c9: "\<forall>k us0 v. run_calls call (opstate w) (Suc k) = map Inr us0 @ [Inr v] \<and>
                 (\<forall>u \<in> set us0. \<not> validator a u) \<and> validator a v \<and> out \<noteq> Hung \<longrightarrow>
            (int k < maxtries a \<longrightarrow> out = Returned v \<and> length (invocations ?evs) = Suc k) \<and>
            (maxtries a \<le> int k \<longrightarrow> out = ?exh \<and> int (length (invocations ?evs)) = maxtries a)"
  proof (intro allI impI, elim conjE)
    fix k us0 v
    assume h: "run_calls call (opstate w) (Suc k) = map Inr us0 @ [Inr v]"
          "\<forall>u \<in> set us0. \<not> validator a u" "validator a v" "out \<noteq> Hung"
    have fs1: "length us \<le> k"
      by (rule run_calls_first_stop(1) [OF h(1) h(2) rc rej]) (simp add: h(3))
    have fs2: "length us = k \<Longrightarrow> final = Inr v"
      by (rule run_calls_first_stop(2) [OF h(1) h(2) rc rej]) (simp_all add: h(3))
    have fs3: "length us < k \<Longrightarrow> \<exists>u. final = Inr u \<and> \<not> validator a u"
      by (rule run_calls_first_stop(3) [OF h(1) h(2) rc rej]) (simp_all add: h(3))
    show "(int k < maxtries a \<longrightarrow> out = Returned v \<and> length (invocations ?evs) = Suc k) \<and>
            (maxtries a \<le> int k \<longrightarrow> out = ?exh \<and> int (length (invocations ?evs)) = maxtries a)"
    proof (cases "length us = k")
      case True
      with fs2 have "final = Inr v" by simp
      with out h(3) V True len inv show ?thesis by (simp add: stop_outcome_def)
    next
      case False
      with fs1 have lt: "length us < k" by simp
      from fs3 [OF lt] obtain u where u: "final = Inr u" "\<not> validator a u" by blast
      with out V have o: "out = (if int (length us) + 1 = maxtries a then ?exh else Hung)"
        by (simp add: stop_outcome_def)
      with h(4) have e: "int (length us) + 1 = maxtries a" by (auto split: if_splits)
      with o lt inv show ?thesis by simp
    qed
  qed
  show ?thesis
    by (intro exI [of _ ?evs] conjI) (fact tr c1 c2 c3 c4 c5 c6 c7 c8 c9)+
qed

text \<open>
  The example of C4: the counting function under a validator that accepts only 5, with
  \<^verbatim>\<open>maxtries = 5\<close> and with \<^verbatim>\<open>maxtries = 4\<close>.
\<close>

theorem retry_wrapper_result_witness:
  "m2retry (args_of 5 0) = Inr (policy_of 5) \<and>
   wrapper (policy_of 5) ''f'' [''1'', ''2''] [(''a'', ''3'')] count_call (world_of (rng0 [])) =
     (Returned 5, \<lparr>opstate = 5, rand = rng0 [],
        trace = [Invoked (Inr 1), Invoked (Inr 2), Invoked (Inr 3), Invoked (Inr 4), Invoked (Inr 5)]\<rparr>) \<and>
   enough_draws (policy_of 5) (nat (maxtries (args_of 5 0))) (rng0 []) \<and>
   run_calls count_call 0 (Suc 4) = map Inr [1, 2, 3, 4] @ [Inr 5] \<and>
   \<not> accept5 1 \<and> \<not> accept5 2 \<and> \<not> accept5 3 \<and> \<not> accept5 4 \<and> accept5 5 \<and>
   m2retry (args_of 4 0) = Inr (policy_of 4) \<and>
   wrapper (policy_of 4) ''f'' [''1'', ''2''] [(''a'', ''3'')] count_call (world_of (rng0 [])) =
     (Raised (MaxTriesExhaustedError ''f(1, 2a=3) failed 4 times, returning None.''),
      \<lparr>opstate = 4, rand = rng0 [],
        trace = [Invoked (Inr 1), Invoked (Inr 2), Invoked (Inr 3), Invoked (Inr 4)]\<rparr>) \<and>
   (\<exists>evs. [Invoked (Inr 1), Invoked (Inr 2), Invoked (Inr 3), Invoked (Inr 4), Invoked (Inr 5)]
            = ([] :: (unit, nat) event list) @ evs \<and>
          length (invocations evs) = Suc 4) \<and>
   (\<exists>evs. [Invoked (Inr 1), Invoked (Inr 2), Invoked (Inr 3), Invoked (Inr 4)]
            = ([] :: (unit, nat) event list) @ evs \<and>
          int (length (invocations evs)) = 4)"
proof -
  let ?w0 = "world_of (rng0 []) :: (nat, unit, nat) rworld"
  let ?w5 = "\<lparr>opstate = 5::nat, rand = rng0 [],
        trace = [Invoked (Inr 1), Invoked (Inr 2), Invoked (Inr 3), Invoked (Inr 4),
                 Invoked (Inr 5) :: (unit, nat) event]\<rparr>"
  let ?w4 = "\<lparr>opstate = 4::nat, rand = rng0 [],
        trace = [Invoked (Inr 1), Invoked (Inr 2), Invoked (Inr 3),
                 Invoked (Inr 4) :: (unit, nat) event]\<rparr>"
  let ?msg = "''f(1, 2a=3) failed 4 times, returning None.''"
  have m5: "m2retry (args_of 5 0) = Inr (policy_of 5)"
    by (simp add: m2retry_def args_of_def policy_of_def)
  have m4: "m2retry (args_of 4 0) = Inr (policy_of 4)"
    by (simp add: m2retry_def args_of_def policy_of_def)
  have r5: "wrapper (policy_of 5) ''f'' [''1'', ''2''] [(''a'', ''3'')] count_call ?w0 = (Returned 5, ?w5)"
    by (simp add: wrapper_def policy_of_def args_of_def world_of_def count_call_def accept5_def
          eval_nat_numeral)
  have r4: "wrapper (policy_of 4) ''f'' [''1'', ''2''] [(''a'', ''3'')] count_call ?w0 =
      (Raised (MaxTriesExhaustedError ?msg), ?w4)"
    by (simp add: wrapper_def policy_of_def args_of_def world_of_def count_call_def accept5_def
          eval_nat_numeral exhausted_message_def str_nat.simps)
  have en: "enough_draws (policy_of 5) (nat (maxtries (args_of 5 0))) (rng0 [])"
    by (simp add: enough_draws_def policy_of_def args_of_def)
  have rc: "run_calls count_call 0 (Suc 4) = map Inr [1, 2, 3, 4] @ [Inr 5]"
    by (simp add: count_call_def eval_nat_numeral)
  have acc: "\<not> accept5 1 \<and> \<not> accept5 2 \<and> \<not> accept5 3 \<and> \<not> accept5 4 \<and> accept5 5"
    by (simp add: accept5_def)
  have mt: "maxtries (args_of 5 0) = 5" "maxtries (args_of 4 0) = 4"
    by (simp_all add: args_of_def)
  from retry_wrapper_result [OF m5 r5] obtain evs where
    e1: "trace ?w5 = trace ?w0 @ evs"
    and e2: "\<forall>k us v. run_calls count_call (opstate ?w0) (Suc k) = map Inr us @ [Inr v] \<and>
                 (\<forall>u \<in> set us. \<not> validator (args_of 5 0) u) \<and> validator (args_of 5 0) v \<and>
                 (Returned 5 :: (unit, nat) outcome) \<noteq> Hung \<longrightarrow>
            (int k < maxtries (args_of 5 0) \<longrightarrow>
               (Returned 5 :: (unit, nat) outcome) = Returned v \<and> length (invocations evs) = Suc k) \<and>
            (maxtries (args_of 5 0) \<le> int k \<longrightarrow>
               (Returned 5 :: (unit, nat) outcome) = Raised (MaxTriesExhaustedError
                        (exhausted_message ''f'' [''1'', ''2''] [(''a'', ''3'')] (nat (maxtries (args_of 5 0))))) \<and>
               int (length (invocations evs)) = maxtries (args_of 5 0))"
    by (elim exE conjE) (rule that)
  from e2 [rule_format, of 4 "[1, 2, 3, 4]" 5] rc acc
  have "length (invocations evs) = Suc 4"
    by (simp add: world_of_def args_of_def)
  with e1 have c5: "\<exists>evs. [Invoked (Inr 1), Invoked (Inr 2), Invoked (Inr 3), Invoked (Inr 4), Invoked (Inr 5)]
            = ([] :: (unit, nat) event list) @ evs \<and> length (invocations evs) = Suc 4"
    by (simp add: world_of_def)
  from retry_wrapper_result [OF m4 r4] obtain evs' where
    f1: "trace ?w4 = trace ?w0 @ evs'"
    and f2: "\<forall>e. (Raised (MaxTriesExhaustedError ?msg) :: (unit, nat) outcome) = Raised e \<longleftrightarrow>
              e = MaxTriesExhaustedError (exhausted_message ''f'' [''1'', ''2''] [(''a'', ''3'')] (nat (maxtries (args_of 4 0)))) \<and>
              int (length (invocations evs')) = maxtries (args_of 4 0) \<and>
              (\<exists>u. last (invocations evs') = Inr u \<and> \<not> validator (args_of 4 0) u)"
    by (elim exE conjE) (rule that)
  from f2 [rule_format, of "MaxTriesExhaustedError ?msg"] mt
  have "int (length (invocations evs')) = 4" by simp
  with f1 have c4: "\<exists>evs. [Invoked (Inr 1), Invoked (Inr 2), Invoked (Inr 3), Invoked (Inr 4)]
            = ([] :: (unit, nat) event list) @ evs \<and> int (length (invocations evs)) = 4"
    by (simp add: world_of_def)
  from m5 r5 en rc acc m4 r4 c5 c4 show ?thesis by blast
qed

text \<open>
  C5.  With a delay above 0, the trace of a run is: each rejected result followed by a
  sleep, then the last call, after which nothing is slept.  The sleep after the
  \<open>failcount\<close>-th rejection has the length that
  \<^verbatim>\<open>get_jittered(boexpbase ** exponent * delay, jitterfactor)\<close> returned, where the
  exponent is \<open>failcount - 1\<close> without \<^verbatim>\<open>borandom\<close> and an element of
  \<^verbatim>\<open>range(failcount)\<close>, picked by \<^verbatim>\<open>random.choice\<close>, with it.  A rejected last result of
  a run that is not \<open>Hung\<close> is the result of the \<^verbatim>\<open>maxtries\<close>-th call: the exception follows
  it with no sleep in between.  (That \<^verbatim>\<open>random.choice\<close> picks uniformly is a property of the
  library; here it is an oracle that picks an element.)
\<close>

theorem retry_sleep_schedule:
  assumes m: "m2retry a = Inr P" and d: "0 < delay a"
    and run: "wrapper P func_name args kwargs call w = (out, w')"
  shows "\<exists>us ts final.
     trace w' = trace w @ schedule us ts @ [Invoked final] \<and>
     length ts = length us \<and> int (length us) < maxtries a \<and>
     (\<forall>u \<in> set us. \<not> validator a u) \<and>
     (\<forall>failcount. 1 \<le> failcount \<and> failcount \<le> length ts \<longrightarrow>
        (\<exists>e r0 r1 r2.
           exponent P failcount r0 = Value e r1 \<and> 0 \<le> e \<and>
           get_jittered (Num (boexpbase P ^ nat e * delay a)) (Num (jitterfactor P)) r1 =
             Value (ts ! (failcount - 1)) r2 \<and>
           (if borandom P then e \<in> set (map int [0 ..< failcount])
            else e = int failcount - 1))) \<and>
     ((\<exists>u. final = Inr u \<and> \<not> validator a u) \<and> out \<noteq> Hung \<longrightarrow>
        int (length us) + 1 = maxtries a \<and>
        out = Raised (MaxTriesExhaustedError
                 (exhausted_message func_name args kwargs (nat (maxtries a))))) \<and>
     (enough_draws P (nat (maxtries a)) (rand w) \<longrightarrow> out \<noteq> Hung)"
proof -
  let ?exh = "Raised (MaxTriesExhaustedError
                       (exhausted_message func_name args kwargs (nat (maxtries a))))"
  from m2retry_Inr [OF m] have ok: "policy_ok P" and V: "validator P = validator a"
    and mt: "maxtries P = maxtries a" and dl: "delay P = delay a" by simp_all
  from d dl have d0: "delay P \<noteq> 0" "delay a \<noteq> 0" by simp_all
  from wrapper_run [OF m run] d0 obtain us ts final where
    tr: "trace w' = trace w @ attempts P us ts @ [Invoked final]" and
    len: "length ts = length us" "int (length us) < maxtries a" and
    rej: "\<forall>u \<in> set us. \<not> validator a u" and
    wt: "\<forall>k < length ts. \<exists>r r'. get_waiting_time P (Suc k) r = Value (ts ! k) r'" and
    out: "out = stop_outcome P final (if int (length us) + 1 = maxtries a then ?exh else Hung)"
    by blast
  have c1: "trace w' = trace w @ schedule us ts @ [Invoked final]"
    using tr d0 by (simp add: attempts_def)
  have c2: "\<forall>failcount. 1 \<le> failcount \<and> failcount \<le> length ts \<longrightarrow>
        (\<exists>e r0 r1 r2.
           exponent P failcount r0 = Value e r1 \<and> 0 \<le> e \<and>
           get_jittered (Num (boexpbase P ^ nat e * delay a)) (Num (jitterfactor P)) r1 =
             Value (ts ! (failcount - 1)) r2 \<and>
           (if borandom P then e \<in> set (map int [0 ..< failcount])
            else e = int failcount - 1))"
  proof (intro allI impI, elim conjE)
    fix failcount :: nat
    assume f: "1 \<le> failcount" "failcount \<le> length ts"
    then obtain k where k: "failcount = Suc k" "k < length ts"
      by (cases failcount) auto
    from wt k obtain r r' where "get_waiting_time P (Suc k) r = Value (ts ! k) r'" by blast
    from get_waiting_time_Value [OF this] obtain e r1 where
      "exponent P (Suc k) r = Value e r1 \<and> 0 \<le> e \<and>
       get_jittered (Num (boexpbase P ^ nat e * delay P)) (Num (jitterfactor P)) r1 = Value (ts ! k) r' \<and>
       (if borandom P then e \<in> set (map int [0 ..< Suc k]) else e = int (Suc k) - 1)"
      by blast
    with k dl have "exponent P failcount r = Value e r1 \<and> 0 \<le> e \<and>
           get_jittered (Num (boexpbase P ^ nat e * delay a)) (Num (jitterfactor P)) r1 =
             Value (ts ! (failcount - 1)) r' \<and>
           (if borandom P then e \<in> set (map int [0 ..< failcount])
            else e = int failcount - 1)"
      by (simp del: upt_Suc split: if_splits)
    then show "\<exists>e r0 r1 r2.
           exponent P failcount r0 = Value e r1 \<and> 0 \<le> e \<and>
           get_jittered (Num (boexpbase P ^ nat e * delay a)) (Num (jitterfactor P)) r1 =
             Value (ts ! (failcount - 1)) r2 \<and>
           (if borandom P then e \<in> set (map int [0 ..< failcount])
            else e = int failcount - 1)"
      by blast
  qed
  have c3: "(\<exists>u. final = Inr u \<and> \<not> validator a u) \<and> out \<noteq> Hung \<longrightarrow>
        int (length us) + 1 = maxtries a \<and> out = ?exh"
    unfolding out V [symmetric] by (auto simp: stop_outcome_def split: if_splits)
  have c4: "enough_draws P (nat (maxtries a)) (rand w) \<longrightarrow> out \<noteq> Hung"
  proof
    assume en: "enough_draws P (nat (maxtries a)) (rand w)"
    from ok mt obtain n where n: "nat (maxtries a) = Suc n"
      by (cases "nat (maxtries a)") (auto simp: policy_ok_def)
    from en n have "enough_draws P n (rand w)" by (simp add: enough_draws_mono)
    from retry_loop_not_hung [OF ok this, of "exhausted_message func_name args kwargs" call 0]
    show "out \<noteq> Hung" using run n mt by (simp add: wrapper_def)
  qed
  show ?thesis
    by (intro exI [of _ us] exI [of _ ts] exI [of _ final] conjI) (fact c1 len rej c2 c3 c4)+
qed

text \<open>The example of C5: four tries with a delay of 1/2, jitter and random exponents.\<close>

theorem retry_sleep_schedule_witness:
  "m2retry (args_of 4 (1/2)) = Inr (args_of 4 (1/2)) \<and>
   0 < delay (args_of 4 (1/2)) \<and>
   wrapper (args_of 4 (1/2)) ''f'' [''1'', ''2''] [(''a'', ''3'')] count_call
       (world_of \<lparr>gauss_draws = [1/10, -1/5, 3/10, 2/5], choice_draws = [5, 3, 4, 0]\<rparr>) =
     (Raised (MaxTriesExhaustedError ''f(1, 2a=3) failed 4 times, returning None.''),
      \<lparr>opstate = 4, rand = \<lparr>gauss_draws = [2/5], choice_draws = [0]\<rparr>,
        trace = [Invoked (Inr 1), Slept (3/5), Invoked (Inr 2), Slept (4/5), Invoked (Inr 3),
                 Slept (13/10), Invoked (Inr 4)]\<rparr>) \<and>
   enough_draws (args_of 4 (1/2)) (nat (maxtries (args_of 4 (1/2))))
     \<lparr>gauss_draws = [1/10, -1/5, 3/10, 2/5], choice_draws = [5, 3, 4, 0]\<rparr> \<and>
   (\<exists>us ts final.
      [Invoked (Inr 1), Slept (3/5), Invoked (Inr 2), Slept (4/5), Invoked (Inr 3),
       Slept (13/10), Invoked (Inr 4)] = ([] :: (unit, nat) event list) @ schedule us ts @ [Invoked final] \<and>
      length ts = length us \<and> int (length us) + 1 = 4)"
proof -
  let ?r = "\<lparr>gauss_draws = [1/10, -1/5, 3/10, 2/5], choice_draws = [5, 3, 4, 0]\<rparr>"
  let ?w0 = "world_of ?r :: (nat, unit, nat) rworld"
  let ?tr = "[Invoked (Inr 1), Slept (3/5), Invoked (Inr 2), Slept (4/5), Invoked (Inr 3),
                 Slept (13/10), Invoked (Inr 4) :: (unit, nat) event]"
  let ?w4 = "\<lparr>opstate = 4::nat, rand = \<lparr>gauss_draws = [2/5], choice_draws = [0]\<rparr>, trace = ?tr\<rparr>"
  let ?out = "Raised (MaxTriesExhaustedError ''f(1, 2a=3) failed 4 times, returning None.'') :: (unit, nat) outcome"
  have m: "m2retry (args_of 4 (1/2)) = Inr (args_of 4 (1/2))"
    by (simp add: m2retry_def args_of_def)
  have d: "0 < delay (args_of 4 (1/2))"
    by (simp add: args_of_def)
  have r: "wrapper (args_of 4 (1/2)) ''f'' [''1'', ''2''] [(''a'', ''3'')] count_call ?w0 = (?out, ?w4)"
    by code_simp
  have en: "enough_draws (args_of 4 (1/2)) (nat (maxtries (args_of 4 (1/2)))) ?r"
    by (simp add: enough_draws_def args_of_def)
  from retry_sleep_schedule [OF m d r] obtain us ts final where
    e1: "trace ?w4 = trace ?w0 @ schedule us ts @ [Invoked final]"
    and e2: "length ts = length us"
    and e3: "(\<exists>u. final = Inr u \<and> \<not> validator (args_of 4 (1/2)) u) \<and> ?out \<noteq> Hung \<longrightarrow>
        int (length us) + 1 = maxtries (args_of 4 (1/2)) \<and>
        ?out = Raised (MaxTriesExhaustedError
                 (exhausted_message ''f'' [''1'', ''2''] [(''a'', ''3'')] (nat (maxtries (args_of 4 (1/2))))))"
    by (elim exE conjE) (rule that)
  from e1 have "last ?tr = Invoked final" by (simp add: world_of_def)
  then have "final = Inr 4" by simp
  with e3 have e4: "int (length us) + 1 = 4" by (simp add: args_of_def accept5_def)
  from e1 have "?tr = ([] :: (unit, nat) event list) @ schedule us ts @ [Invoked final]"
    by (simp add: world_of_def)
  with e2 e4 have "\<exists>us ts final. ?tr = ([] :: (unit, nat) event list) @ schedule us ts @ [Invoked final] \<and>
      length ts = length us \<and> int (length us) + 1 = 4"
    by blast
  with m d r en show ?thesis by blast
qed

text \<open>
  C6.  A run ends with the exception \<open>x\<close> of the wrapped function exactly when its last
  call raised \<open>x\<close>; a call that raises is the last event of the run, so no call and no
  sleep follows it, and no earlier call of the run raised.  When the calls return
  rejected results up to the \<open>k + 1\<close>-th, which raises \<open>x\<close>, with \<open>k < maxtries\<close>, the run
  makes exactly \<open>k + 1\<close> calls and ends with \<open>x\<close>.
\<close>

theorem retry_operation_error_propagates:
  assumes m: "m2retry a = Inr P"
    and run: "wrapper P func_name args kwargs call w = (out, w')"
  shows "\<exists>evs.
       trace w' = trace w @ evs \<and>
       (\<forall>x. out = OpRaised x \<longleftrightarrow> last (invocations evs) = Inl x) \<and>
       (\<forall>x. Inl x \<in> set (invocations evs) \<longrightarrow>
            out = OpRaised x \<and> last evs = Invoked (Inl x) \<and>
            Inl x \<notin> set (butlast (invocations evs))) \<and>
       (\<forall>k us x. run_calls call (opstate w) (Suc k) = map Inr us @ [Inl x] \<and>
                 (\<forall>u \<in> set us. \<not> validator a u) \<and> int k < maxtries a \<and> out \<noteq> Hung \<longrightarrow>
            out = OpRaised x \<and> length (invocations evs) = Suc k)"
proof -
  let ?exh = "Raised (MaxTriesExhaustedError
                       (exhausted_message func_name args kwargs (nat (maxtries a))))"
  from m2retry_Inr [OF m] have V: "validator P = validator a" by simp
  from wrapper_run [OF m run] obtain us ts final where
    tr: "trace w' = trace w @ attempts P us ts @ [Invoked final]" and
    len: "length ts = length us" "int (length us) < maxtries a" and
    rej: "\<forall>u \<in> set us. \<not> validator a u" and
    rc: "run_calls call (opstate w) (Suc (length us)) = map Inr us @ [final]" and
    out: "out = stop_outcome P final (if int (length us) + 1 = maxtries a then ?exh else Hung)"
    by blast
  let ?evs = "attempts P us ts @ [Invoked final]"
  have inv: "invocations ?evs = map Inr us @ [final]"
    using len by (simp add: invocations_append invocations_attempts)
  have li: "last (invocations ?evs) = final" and bl: "butlast (invocations ?evs) = map Inr us"
    and le: "last ?evs = Invoked final" and ll: "length (invocations ?evs) = Suc (length us)"
    using inv by simp_all
  have c1: "\<forall>x. out = OpRaised x \<longleftrightarrow> last (invocations ?evs) = Inl x"
    unfolding out li by (cases final) (auto simp: stop_outcome_def)
  have c2: "\<forall>x. Inl x \<in> set (invocations ?evs) \<longrightarrow>
            out = OpRaised x \<and> last ?evs = Invoked (Inl x) \<and>
            Inl x \<notin> set (butlast (invocations ?evs))"
    unfolding bl le out inv by (auto simp: stop_outcome_def)
  have c3: "\<forall>k us0 x. run_calls call (opstate w) (Suc k) = map Inr us0 @ [Inl x] \<and>
                 (\<forall>u \<in> set us0. \<not> validator a u) \<and> int k < maxtries a \<and> out \<noteq> Hung \<longrightarrow>
            out = OpRaised x \<and> length (invocations ?evs) = Suc k"
  proof (intro allI impI, elim conjE)
    fix k us0 x
    assume h: "run_calls call (opstate w) (Suc k) = map Inr us0 @ [Inl x]"
          "\<forall>u \<in> set us0. \<not> validator a u" "int k < maxtries a" "out \<noteq> Hung"
    have fs1: "length us \<le> k"
      by (rule run_calls_first_stop(1) [OF h(1) h(2) rc rej]) simp
    have fs2: "length us = k \<Longrightarrow> final = Inl x"
      by (rule run_calls_first_stop(2) [OF h(1) h(2) rc rej]) simp_all
    have fs3: "length us < k \<Longrightarrow> \<exists>u. final = Inr u \<and> \<not> validator a u"
      by (rule run_calls_first_stop(3) [OF h(1) h(2) rc rej]) simp_all
    show "out = OpRaised x \<and> length (invocations ?evs) = Suc k"
    proof (cases "length us = k")
      case True
      with fs2 have "final = Inl x" by simp
      with out True ll show ?thesis by (simp add: stop_outcome_def)
    next
      case False
      with fs1 have lt: "length us < k" by simp
      from fs3 [OF lt] obtain u where u: "final = Inr u" "\<not> validator a u" by blast
      with out V have o: "out = (if int (length us) + 1 = maxtries a then ?exh else Hung)"
        by (simp add: stop_outcome_def)
      with h(4) have "int (length us) + 1 = maxtries a" by (auto split: if_splits)
      with lt h(3) show ?thesis by simp
    qed
  qed
  show ?thesis
    by (intro exI [of _ ?evs] conjI) (fact tr c1 c2 c3)+
qed

text \<open>The example of C6: the third call raises.\<close>

theorem retry_operation_error_propagates_witness:
  "m2retry (args_of 5 0) = Inr (policy_of 5) \<and>
   wrapper (policy_of 5) ''f'' [] [] fail_third (world_of (rng0 [])) =
     (OpRaised ''IOError'', \<lparr>opstate = 3, rand = rng0 [],
        trace = [Invoked (Inr 1), Invoked (Inr 2), Invoked (Inl ''IOError'')]\<rparr>) \<and>
   run_calls fail_third 0 (Suc 2) = map Inr [1, 2] @ [Inl ''IOError''] \<and>
   \<not> accept5 1 \<and> \<not> accept5 2 \<and>
   (\<exists>evs. [Invoked (Inr 1), Invoked (Inr 2), Invoked (Inl ''IOError'')] =
            ([] :: (string, nat) event list) @ evs \<and> length (invocations evs) = Suc 2)"
proof -
  let ?w0 = "world_of (rng0 []) :: (nat, string, nat) rworld"
  let ?tr = "[Invoked (Inr 1), Invoked (Inr 2), Invoked (Inl ''IOError'') :: (string, nat) event]"
  let ?w3 = "\<lparr>opstate = 3::nat, rand = rng0 [], trace = ?tr\<rparr>"
  let ?out = "OpRaised ''IOError'' :: (string, nat) outcome"
  have m: "m2retry (args_of 5 0) = Inr (policy_of 5)"
    by (simp add: m2retry_def args_of_def policy_of_def)
  have r: "wrapper (policy_of 5) ''f'' [] [] fail_third ?w0 = (?out, ?w3)"
    by (simp add: wrapper_def policy_of_def args_of_def world_of_def fail_third_def accept5_def
          eval_nat_numeral)
  have rc: "run_calls fail_third 0 (Suc 2) = map Inr [1, 2] @ [Inl ''IOError'']"
    by (simp add: fail_third_def eval_nat_numeral)
  have rej: "\<not> accept5 1 \<and> \<not> accept5 2"
    by (simp add: accept5_def)
  from retry_operation_error_propagates [OF m r] obtain evs where
    e1: "trace ?w3 = trace ?w0 @ evs"
    and e2: "\<forall>k us x. run_calls fail_third (opstate ?w0) (Suc k) = map Inr us @ [Inl x] \<and>
                 (\<forall>u \<in> set us. \<not> validator (args_of 5 0) u) \<and> int k < maxtries (args_of 5 0) \<and>
                 ?out \<noteq> Hung \<longrightarrow>
            ?out = OpRaised x \<and> length (invocations evs) = Suc k"
    by (elim exE conjE) (rule that)
  from e2 [rule_format, of 2 "[1, 2]" "''IOError''"] rc rej
  have "length (invocations evs) = Suc 2"
    by (simp add: world_of_def args_of_def)
  with e1 have "\<exists>evs. ?tr = ([] :: (string, nat) event list) @ evs \<and> length (invocations evs) = Suc 2"
    by (simp add: world_of_def)
  with m r rc rej show ?thesis by blast
qed

text \<open>
  C7.  The values the decorator keeps: with \<^verbatim>\<open>delay == 0\<close> the jitter factor is 0 and
  backoff is off; with backoff off (as given or as forced) the base is 1; with a base of 1
  (as given or as forced) the random exponent is off.  With \<^verbatim>\<open>delay == 0\<close> a run of the
  wrapper sleeps never, does not touch the random source and cannot hang, whatever jitter
  factor and backoff were given.
\<close>

theorem retry_zero_delay_policy:
  assumes m: "m2retry a = Inr P"
  shows "(delay a = 0 \<longrightarrow> jitterfactor P = 0 \<and> \<not> backoff P) \<and>
         (\<not> backoff P \<longrightarrow> boexpbase P = 1) \<and>
         (boexpbase P = 1 \<longrightarrow> \<not> borandom P) \<and>
         (\<not> backoff a \<longrightarrow> boexpbase P = 1) \<and>
         (boexpbase a = 1 \<longrightarrow> \<not> borandom P) \<and>
         delay P = delay a \<and>
         (delay a = 0 \<and> wrapper P func_name args kwargs call w = (out, w') \<longrightarrow>
            (\<exists>evs. trace w' = trace w @ evs \<and> sleeps evs = []) \<and>
            rand w' = rand w \<and> out \<noteq> Hung)"
proof -
  from m2retry_Inr [OF m] have ok: "policy_ok P" and mt: "maxtries P = maxtries a"
    and dl: "delay P = delay a" by simp_all
  have n1: "delay a = 0 \<longrightarrow> jitterfactor P = 0 \<and> \<not> backoff P"
    and n2: "\<not> backoff P \<longrightarrow> boexpbase P = 1"
    and n3: "boexpbase P = 1 \<longrightarrow> \<not> borandom P"
    using ok dl by (simp_all add: policy_ok_def)
  have n4: "\<not> backoff a \<longrightarrow> boexpbase P = 1" and n5: "boexpbase a = 1 \<longrightarrow> \<not> borandom P"
    using m by (auto simp: m2retry_def Let_def split: if_splits)
  have n6: "delay a = 0 \<and> wrapper P func_name args kwargs call w = (out, w') \<longrightarrow>
            (\<exists>evs. trace w' = trace w @ evs \<and> sleeps evs = []) \<and>
            rand w' = rand w \<and> out \<noteq> Hung"
  proof (intro impI, elim conjE)
    assume d: "delay a = 0" and run: "wrapper P func_name args kwargs call w = (out, w')"
    from d dl have d0: "delay P = 0" by simp
    from ok mt obtain n where n: "nat (maxtries P) = Suc n"
      by (cases "nat (maxtries P)") (auto simp: policy_ok_def)
    from run n have "retry_loop P (exhausted_message func_name args kwargs) call (Suc n) 0 w = (out, w')"
      by (simp add: wrapper_def)
    from retry_loop_run_nodelay [OF d0 this] obtain us final where
      tr: "trace w' = trace w @ map (\<lambda>u. Invoked (Inr u)) us @ [Invoked final]" and
      rnd: "rand w' = rand w" and
      out: "out = stop_outcome P final
              (Raised (MaxTriesExhaustedError (exhausted_message func_name args kwargs (Suc (0 + n)))))"
      by blast
    have "sleeps (map (\<lambda>u. Invoked (Inr u)) us @ [Invoked final]) = []"
      by (simp add: sleeps_append sleeps_map)
    with tr have "\<exists>evs. trace w' = trace w @ evs \<and> sleeps evs = []" by blast
    moreover from out have "out \<noteq> Hung"
      by (cases final) (auto simp: stop_outcome_def)
    ultimately show "(\<exists>evs. trace w' = trace w @ evs \<and> sleeps evs = []) \<and>
            rand w' = rand w \<and> out \<noteq> Hung"
      using rnd by blast
  qed
  show ?thesis
    by (intro conjI) (fact n1 n2 n3 n4 n5 dl n6)+
qed

text \<open>The example of C7: delay 0 given with jitter factor 1, backoff and random exponent.\<close>

theorem retry_zero_delay_policy_witness:
  "m2retry (args_of 5 0) = Inr (policy_of 5) \<and>
   delay (args_of 5 0) = 0 \<and> jitterfactor (args_of 5 0) = 1 \<and> backoff (args_of 5 0) \<and>
   boexpbase (args_of 5 0) = 2 \<and> borandom (args_of 5 0) \<and>
   wrapper (policy_of 5) ''f'' [''1'', ''2''] [(''a'', ''3'')] count_call (world_of (rng0 [1, 2])) =
     (Returned 5, \<lparr>opstate = 5, rand = rng0 [1, 2],
        trace = [Invoked (Inr 1), Invoked (Inr 2), Invoked (Inr 3), Invoked (Inr 4), Invoked (Inr 5)]\<rparr>) \<and>
   jitterfactor (policy_of 5) = 0 \<and> \<not> backoff (policy_of 5) \<and> boexpbase (policy_of 5) = 1 \<and>
   \<not> borandom (policy_of 5) \<and>
   (\<exists>evs. [Invoked (Inr 1), Invoked (Inr 2), Invoked (Inr 3), Invoked (Inr 4), Invoked (Inr 5)] =
            ([] :: (unit, nat) event list) @ evs \<and> sleeps evs = [])"
proof -
  let ?w0 = "world_of (rng0 [1, 2]) :: (nat, unit, nat) rworld"
  let ?tr = "[Invoked (Inr 1), Invoked (Inr 2), Invoked (Inr 3), Invoked (Inr 4),
                 Invoked (Inr 5) :: (unit, nat) event]"
  let ?w5 = "\<lparr>opstate = 5::nat, rand = rng0 [1, 2], trace = ?tr\<rparr>"
  let ?out = "Returned 5 :: (unit, nat) outcome"
  have m: "m2retry (args_of 5 0) = Inr (policy_of 5)"
    by (simp add: m2retry_def args_of_def policy_of_def)
  have a: "delay (args_of 5 0) = 0 \<and> jitterfactor (args_of 5 0) = 1 \<and> backoff (args_of 5 0) \<and>
      boexpbase (args_of 5 0) = 2 \<and> borandom (args_of 5 0)"
    by (simp add: args_of_def)
  have r: "wrapper (policy_of 5) ''f'' [''1'', ''2''] [(''a'', ''3'')] count_call ?w0 = (?out, ?w5)"
    by (simp add: wrapper_def policy_of_def args_of_def world_of_def count_call_def accept5_def
          eval_nat_numeral)
  note t = retry_zero_delay_policy [OF m, of "''f''" "[''1'', ''2'']" "[(''a'', ''3'')]" count_call ?w0 ?out ?w5]
  from t a have n: "jitterfactor (policy_of 5) = 0 \<and> \<not> backoff (policy_of 5) \<and>
      boexpbase (policy_of 5) = 1 \<and> \<not> borandom (policy_of 5)"
    by blast
  from t a r have "\<exists>evs. trace ?w5 = trace ?w0 @ evs \<and> sleeps evs = []" by blast
  then have "\<exists>evs. ?tr = ([] :: (unit, nat) event list) @ evs \<and> sleeps evs = []"
    by (simp add: world_of_def)
  with m a r n show ?thesis by blast
qed

section \<open>Claims on the reachback parser\<close>




text \<open>
  The relative branch subtracts the months from the number of the month and hands the day
  of the month on as it is; it does not look whether the month reached has that day.  On
  31 March, \<^verbatim>\<open>1 month\<close> asks the constructor for 31 February, which raises \<^verbatim>\<open>ValueError\<close>.
  The statement above leaves this case out.
\<close>

lemma get_dt_relative_keeps_day:
  "match_datetime ''1 month'' = None \<and> findall ''1 month'' = [(''1'', ''month'')] \<and>
   get_dt ''1 month'' now_example = Inl ValueError"
proof -
  have "match_datetime ''1 month'' = None" by code_simp
  moreover have "findall ''1 month'' = [(''1'', ''month'')]" by code_simp
  moreover have "get_dt ''1 month'' now_example = Inl ValueError" by code_simp
  ultimately show ?thesis by blast
qed
section \<open>Claims on the cache\<close>

text \<open>
  C1 (as stated: two calls with identical arguments under a cutoff at or before the first
  call's store time invoke the operation exactly once).  A function that returns
  \<^verbatim>\<open>None\<close> is never cached: lines 98 and 107 of \<^verbatim>\<open>m2cache.py\<close> store a result only if it is
  not \<^verbatim>\<open>None\<close>, so with the default cutoff the second call invokes the function again.
  So does the second call under \<^verbatim>\<open>hoard\<close> for a fingerprint that the inventory did not
  hold: the result of the first call is written to a file but not entered in the inventory.
\<close>

theorem cache_none_and_hoard_counterexample:
  "(let run = cache_wrapper example_digest no_dataframe (cache_cfg ''0001-01-01'' False) ''f''
                return_None [''1''] [];
        w1 = snd (run empty_cache); w2 = snd (run w1)
    in fst (run empty_cache) = Returned None \<and> fst (run w1) = Returned None \<and>
       invoked w1 = 1 \<and> invoked w2 = 2 \<and> dom (storage w2) = {}) \<and>
   (let run = cache_wrapper example_digest no_dataframe (cache_cfg ''0001-01-01'' True) ''f''
                return_42 [''1''] [];
        w1 = snd (run empty_cache); w2 = snd (run w1)
    in fst (run empty_cache) = Returned (Some 42) \<and> fst (run w1) = Returned (Some 42) \<and>
       invoked w1 = 1 \<and> invoked w2 = 2 \<and>
       storage w1 ''cache/f_sha1:f(1)_2024-03-31_010203.pkl'' = Some 42)"
  by (simp add: cache_eval)

text \<open>
  C1 (amended).  (1) If the fingerprint is in the inventory, the timestamp of its newest
  entry is at or after the cutoff and the file of this entry is in the store (with the
  extension \<^verbatim>\<open>.csv\<close> or \<^verbatim>\<open>.pkl\<close>), the call returns the value of this file and changes
  nothing: the function is not invoked.  (2) Under single-version retention, if a call
  misses, the function returns a value other than \<^verbatim>\<open>None\<close>, the files recorded for the
  fingerprint exist and the new file name is none of them, then a second call with the
  same arguments, at any later reading of the clock for which the cutoff is at or before
  the time of the first store, returns the same value, and the function has been invoked
  exactly once over the two calls.  (3) If the fingerprint is not in the inventory, or the
  timestamp of its newest entry is before the cutoff, the call invokes the function.
\<close>

theorem cache_hit_and_round_trip:
  assumes fp: "fp = get_func_sig_hashed sha1 func_name args kwargs"
  shows
   "(cache_inventory w fp = Some (e # es) \<and> get_dt (reachback cfg) (clock w) = Inr cutoff \<and>
     dt_le cutoff (e_dt (max_entry e es)) \<and>
     storage w (e_cachefilename (max_entry e es)) = Some v \<and>
     (drop (length (e_cachefilename (max_entry e es)) - 4) (e_cachefilename (max_entry e es)) = ''.csv'' \<or>
      drop (length (e_cachefilename (max_entry e es)) - 4) (e_cachefilename (max_entry e es)) = ''.pkl'')
     \<longrightarrow> cache_wrapper sha1 is_dataframe cfg func_name call args kwargs w = (Returned (Some v), w)) \<and>
    (\<not> hoard cfg \<and> cache_lookup cfg fp w = Inr None \<and>
     call (fstate w) (clock w) = (Inr (Some v1), s1, t1) \<and>
     distinct (map e_cachefilename (entries_of w fp)) \<and>
     (\<forall>p \<in> set (map e_cachefilename (entries_of w fp)). storage w p \<noteq> None) \<and>
     cache_file_name is_dataframe v1 (cachedir cfg) func_name fp t1
       \<notin> set (map e_cachefilename (entries_of w fp)) \<and>
     cache_wrapper sha1 is_dataframe cfg func_name call args kwargs w = (out1, w1) \<and>
     get_dt (reachback cfg) t2 = Inr cutoff2 \<and> dt_le cutoff2 t1 \<and>
     cache_wrapper sha1 is_dataframe cfg func_name call args kwargs
       (w1\<lparr>clock := t2, fstate := s2\<rparr>) = (out2, w2)
     \<longrightarrow> out1 = Returned (Some v1) \<and> out2 = Returned (Some v1) \<and> invoked w1 = Suc (invoked w) \<and>
         invoked w2 = Suc (invoked w)) \<and>
    ((cache_inventory w fp = None \<or>
      (cache_inventory w fp = Some (e # es) \<and> get_dt (reachback cfg) (clock w) = Inr cutoff \<and>
       dt_less (e_dt (max_entry e es)) cutoff))
     \<longrightarrow> invoked (snd (cache_wrapper sha1 is_dataframe cfg func_name call args kwargs w)) =
           Suc (invoked w))"
proof (intro conjI impI)
  assume a: "cache_inventory w fp = Some (e # es) \<and> get_dt (reachback cfg) (clock w) = Inr cutoff \<and>
     dt_le cutoff (e_dt (max_entry e es)) \<and>
     storage w (e_cachefilename (max_entry e es)) = Some v \<and>
     (drop (length (e_cachefilename (max_entry e es)) - 4) (e_cachefilename (max_entry e es)) = ''.csv'' \<or>
      drop (length (e_cachefilename (max_entry e es)) - 4) (e_cachefilename (max_entry e es)) = ''.pkl'')"
  then have "cache_lookup cfg fp w = Inr (Some (max_entry e es))"
    by (intro cache_lookup_hit) blast+
  with a show "cache_wrapper sha1 is_dataframe cfg func_name call args kwargs w = (Returned (Some v), w)"
    unfolding fp by (intro cache_wrapper_hit) blast+
next
  assume c: "cache_inventory w fp = None \<or>
      (cache_inventory w fp = Some (e # es) \<and> get_dt (reachback cfg) (clock w) = Inr cutoff \<and>
       dt_less (e_dt (max_entry e es)) cutoff)"
  then have "cache_lookup cfg fp w = Inr None" by (rule cache_lookup_miss)
  then have "cache_wrapper sha1 is_dataframe cfg func_name call args kwargs w =
      cache_miss is_dataframe cfg func_name call fp w"
    unfolding fp by (rule cache_wrapper_miss)
  then show "invoked (snd (cache_wrapper sha1 is_dataframe cfg func_name call args kwargs w)) =
           Suc (invoked w)"
    by (simp add: cache_miss_invoked)
next
  let ?newf = "cache_file_name is_dataframe v1 (cachedir cfg) func_name fp t1"
  let ?new = "\<lparr>e_dt = t1, e_cachefilename = ?newf\<rparr>"
  let ?rec = "map e_cachefilename (entries_of w fp)"
  assume b: "\<not> hoard cfg \<and> cache_lookup cfg fp w = Inr None \<and>
     call (fstate w) (clock w) = (Inr (Some v1), s1, t1) \<and>
     distinct (map e_cachefilename (entries_of w fp)) \<and>
     (\<forall>p \<in> set (map e_cachefilename (entries_of w fp)). storage w p \<noteq> None) \<and>
     cache_file_name is_dataframe v1 (cachedir cfg) func_name fp t1
       \<notin> set (map e_cachefilename (entries_of w fp)) \<and>
     cache_wrapper sha1 is_dataframe cfg func_name call args kwargs w = (out1, w1) \<and>
     get_dt (reachback cfg) t2 = Inr cutoff2 \<and> dt_le cutoff2 t1 \<and>
     cache_wrapper sha1 is_dataframe cfg func_name call args kwargs
       (w1\<lparr>clock := t2, fstate := s2\<rparr>) = (out2, w2)"
  then have nh: "\<not> hoard cfg" and miss: "cache_lookup cfg fp w = Inr None"
    and call: "call (fstate w) (clock w) = (Inr (Some v1), s1, t1)"
    and d: "distinct ?rec" and ex: "\<forall>p \<in> set ?rec. storage w p \<noteq> None"
    and new: "?newf \<notin> set ?rec"
    and run1: "cache_wrapper sha1 is_dataframe cfg func_name call args kwargs w = (out1, w1)"
    and cut: "get_dt (reachback cfg) t2 = Inr cutoff2" and le: "dt_le cutoff2 t1"
    and run2: "cache_wrapper sha1 is_dataframe cfg func_name call args kwargs
       (w1\<lparr>clock := t2, fstate := s2\<rparr>) = (out2, w2)"
    by blast+
  from run1 miss have cm: "cache_miss is_dataframe cfg func_name call fp w = (out1, w1)"
    unfolding fp by (simp add: cache_wrapper_miss)
  from cache_miss_single_version [where call = call and w = w and isdf = is_dataframe
        and name = func_name and fp = fp, OF call nh d ex new] cm
  have o1: "out1 = Returned (Some v1)"
    and w1: "w1 = w\<lparr>fstate := s1, clock := t1, invoked := Suc (invoked w),
        storage := (\<lambda>p. if p \<in> set ?rec then None else ((storage w)(?newf \<mapsto> v1)) p),
        cache_inventory := (cache_inventory w)(fp \<mapsto> [?new])\<rparr>"
    by simp_all
  let ?w = "w1\<lparr>clock := t2, fstate := s2\<rparr>"
  have inv: "cache_inventory ?w fp = Some (?new # [])" by (simp add: w1)
  have st: "storage ?w (e_cachefilename (max_entry ?new [])) = Some v1" using new by (simp add: w1)
  have i1: "invoked w1 = Suc (invoked w)" by (simp add: w1)
  have cut': "get_dt (reachback cfg) (clock ?w) = Inr cutoff2" by (simp add: cut)
  have le': "dt_le cutoff2 (e_dt (max_entry ?new []))" by (simp add: le)
  have "cache_lookup cfg fp ?w = Inr (Some (max_entry ?new []))"
    using inv cut' le' by (rule cache_lookup_hit)
  then have "cache_wrapper sha1 is_dataframe cfg func_name call args kwargs ?w = (Returned (Some v1), ?w)"
    using st unfolding fp by (rule cache_wrapper_hit) (simp add: cache_file_name_ext)
  with run2 have "out2 = Returned (Some v1)" and "w2 = ?w" by simp_all
  with o1 i1 show "out1 = Returned (Some v1)" and "out2 = Returned (Some v1)"
    and "invoked w1 = Suc (invoked w)" and "invoked w2 = Suc (invoked w)"
    by simp_all
qed

text \<open>
  The three parts of the amended C1 at work: two calls of a function that returns 42 on
  an empty cache with the default cutoff invoke it once; a call on the cache that holds
  one entry is a hit and changes nothing; the same call with a cutoff in the year 9999
  invokes the function.
\<close>

theorem cache_hit_and_round_trip_witness:
  "cache_lookup (cache_cfg ''0001-01-01'' False) ''sha1:f(1)'' empty_cache = Inr None \<and>
   return_42 (fstate empty_cache) (clock empty_cache) = (Inr (Some 42), (), now_example) \<and>
   get_dt (reachback (cache_cfg ''0001-01-01'' False)) now_example =
     Inr \<lparr>year = 1, month = 1, day = 1, hour = 0, minute = 0, second = 0, microsecond = 0\<rparr> \<and>
   dt_le \<lparr>year = 1, month = 1, day = 1, hour = 0, minute = 0, second = 0, microsecond = 0\<rparr>
     now_example \<and>
   (let run = cache_wrapper example_digest no_dataframe (cache_cfg ''0001-01-01'' False) ''f''
                return_42 [''1''] [];
        w1 = snd (run empty_cache);
        w2 = snd (run (w1\<lparr>clock := now_example, fstate := ()\<rparr>))
    in fst (run empty_cache) = Returned (Some 42) \<and>
       fst (run (w1\<lparr>clock := now_example, fstate := ()\<rparr>)) = Returned (Some 42) \<and>
       invoked w1 = 1 \<and> invoked w2 = 1) \<and>
   cache_wrapper example_digest no_dataframe (cache_cfg ''0001-01-01'' False) ''f'' return_42
     [''1''] [] one_entry_cache = (Returned (Some 42), one_entry_cache) \<and>
   invoked (snd (cache_wrapper example_digest no_dataframe (cache_cfg ''9999'' False) ''f''
     return_42 [''1''] [] one_entry_cache)) = 2"
proof -
  let ?cfg = "cache_cfg ''0001-01-01'' False"
  let ?min = "\<lparr>year = 1, month = 1, day = 1, hour = 0, minute = 0, second = 0, microsecond = 0\<rparr>"
  let ?max = "\<lparr>year = 9999, month = 1, day = 1, hour = 0, minute = 0, second = 0, microsecond = 0\<rparr>"
  let ?old = "\<lparr>e_dt = now_example, e_cachefilename = ''cache/f_sha1:f(1)_2024-03-31_010203.pkl''\<rparr>"
  let ?run = "cache_wrapper example_digest no_dataframe ?cfg ''f'' return_42 [''1''] []"
  let ?r1 = "?run empty_cache"
  let ?r2 = "?run ((snd ?r1)\<lparr>clock := now_example, fstate := ()\<rparr>)"
  have nh: "\<not> hoard ?cfg" by (simp add: cache_cfg_def)
  have miss: "cache_lookup ?cfg ''sha1:f(1)'' empty_cache = Inr None"
    by (simp add: cache_lookup_def empty_cache_def)
  have c: "return_42 (fstate empty_cache) (clock empty_cache) = (Inr (Some 42), (), now_example)"
    by (simp add: return_42_def empty_cache_def)
  have d: "distinct (map e_cachefilename (entries_of empty_cache ''sha1:f(1)''))"
    by (simp add: entries_of_def empty_cache_def)
  have ex: "\<forall>p \<in> set (map e_cachefilename (entries_of empty_cache ''sha1:f(1)'')).
      storage empty_cache p \<noteq> None"
    by (simp add: entries_of_def empty_cache_def)
  have new: "cache_file_name no_dataframe 42 (cachedir ?cfg) ''f'' ''sha1:f(1)'' now_example
      \<notin> set (map e_cachefilename (entries_of empty_cache ''sha1:f(1)''))"
    by (simp add: entries_of_def empty_cache_def)
  have r1: "?r1 = (fst ?r1, snd ?r1)" by simp
  have r2: "?r2 = (fst ?r2, snd ?r2)" by simp
  have cut: "get_dt (reachback ?cfg) now_example = Inr ?min" by (simp add: cache_cfg_def ex_min)
  have le: "dt_le ?min now_example" by (simp add: ex_fresh)
  note th = cache_hit_and_round_trip [OF ex_fp [symmetric]]
  have b: "fst ?r1 = Returned (Some 42) \<and> fst ?r2 = Returned (Some 42) \<and>
      invoked (snd ?r1) = Suc (invoked empty_cache) \<and> invoked (snd ?r2) = Suc (invoked empty_cache)"
    using th [where cfg = ?cfg and w = empty_cache and call = return_42
        and is_dataframe = no_dataframe and ?v1.0 = 42 and ?s1.0 = "()" and ?t1.0 = now_example
        and ?out1.0 = "fst ?r1" and ?w1.0 = "snd ?r1" and ?t2.0 = now_example
        and ?cutoff2.0 = ?min and ?s2.0 = "()" and ?out2.0 = "fst ?r2" and ?w2.0 = "snd ?r2"]
      nh miss c d ex new r1 cut le r2
    by blast
  have i0: "invoked empty_cache = 0" by (simp add: empty_cache_def)
  have inv: "cache_inventory one_entry_cache ''sha1:f(1)'' = Some (?old # [])"
    by (simp add: one_entry_cache_def)
  have cut1: "get_dt (reachback ?cfg) (clock one_entry_cache) = Inr ?min"
    by (simp add: cache_cfg_def ex_min)
  have le1: "dt_le ?min (e_dt (max_entry ?old []))" by (simp add: ex_fresh)
  have st: "storage one_entry_cache (e_cachefilename (max_entry ?old [])) = Some 42"
    by (simp add: one_entry_cache_def)
  have ext: "drop (length (e_cachefilename (max_entry ?old [])) - 4)
      (e_cachefilename (max_entry ?old [])) = ''.pkl''"
    by simp
  have a: "?run one_entry_cache = (Returned (Some 42), one_entry_cache)"
    using th [where cfg = ?cfg and w = one_entry_cache and e = ?old and es = "[]"
        and cutoff = ?min and v = 42 and call = return_42 and is_dataframe = no_dataframe]
      inv cut1 le1 st ext
    by blast
  have cut9: "get_dt (reachback (cache_cfg ''9999'' False)) (clock one_entry_cache) = Inr ?max"
    by (simp add: cache_cfg_def ex_9999)
  have less: "dt_less (e_dt (max_entry ?old [])) ?max"
    by (simp add: dt_less_def ex_stale)
  have i1: "invoked one_entry_cache = 1" by (simp add: one_entry_cache_def)
  have "invoked (snd (cache_wrapper example_digest no_dataframe (cache_cfg ''9999'' False) ''f''
      return_42 [''1''] [] one_entry_cache)) = Suc (invoked one_entry_cache)"
    using th [where cfg = "cache_cfg ''9999'' False" and w = one_entry_cache and e = ?old
        and es = "[]" and cutoff = ?max and call = return_42 and is_dataframe = no_dataframe]
      inv cut9 less
    by blast
  then have c2: "invoked (snd (cache_wrapper example_digest no_dataframe (cache_cfg ''9999'' False)
      ''f'' return_42 [''1''] [] one_entry_cache)) = 2"
    by (simp add: i1)
  from b have b': "fst ?r1 = Returned (Some 42) \<and> fst ?r2 = Returned (Some 42) \<and>
      invoked (snd ?r1) = 1 \<and> invoked (snd ?r2) = 1"
    by (simp add: i0)
  from miss c cut le b' a c2 show ?thesis unfolding Let_def by blast
qed

text \<open>
  C2 (the code departs from the claim under \<^verbatim>\<open>hoard\<close>).  Line 105 of \<^verbatim>\<open>m2cache.py\<close>
  appends the new entry to \<^verbatim>\<open>cache_inventory.get(func_sig_hashed, [])\<close>.  Under
  single-version retention line 104 has just set the key, so the entry is recorded.  Under
  \<^verbatim>\<open>hoard\<close> a fingerprint that the inventory does not hold yet is not set: the entry is
  appended to a fresh list that is dropped, the file is written and the inventory is left
  as it was.  If the inventory holds the fingerprint, the entry is appended.
\<close>

theorem cache_hoard_append_lost:
  assumes fp: "fp = get_func_sig_hashed sha1 func_name args kwargs"
    and h: "hoard cfg"
    and call: "call (fstate w) (clock w) = (Inr (Some v), s', t')"
    and run: "cache_wrapper sha1 is_dataframe cfg func_name call args kwargs w = (out, w')"
  shows "(cache_inventory w fp = None \<longrightarrow>
            out = Returned (Some v) \<and>
            storage w' (cache_file_name is_dataframe v (cachedir cfg) func_name fp t') = Some v \<and>
            cache_inventory w' = cache_inventory w \<and> cache_inventory w' fp = None) \<and>
         (\<forall>es. cache_inventory w fp = Some es \<and> cache_lookup cfg fp w = Inr None \<longrightarrow>
            out = Returned (Some v) \<and>
            cache_inventory w' fp = Some (es @
              [\<lparr>e_dt = t', e_cachefilename = cache_file_name is_dataframe v (cachedir cfg) func_name fp t'\<rparr>]))"
proof -
  note cm = cache_miss_hoard [where call = call and w = w and isdf = is_dataframe
      and name = func_name and fp = fp, OF call h]
  have a: "out = Returned (Some v) \<and>
            storage w' (cache_file_name is_dataframe v (cachedir cfg) func_name fp t') = Some v \<and>
            cache_inventory w' = cache_inventory w \<and> cache_inventory w' fp = None"
    if n: "cache_inventory w fp = None"
  proof -
    from n have "cache_lookup cfg fp w = Inr None" by (simp add: cache_lookup_def)
    with run fp have "cache_miss is_dataframe cfg func_name call fp w = (out, w')"
      by (simp add: cache_wrapper_miss)
    with cm n show ?thesis by auto
  qed
  have b: "out = Returned (Some v) \<and>
            cache_inventory w' fp = Some (es @
              [\<lparr>e_dt = t', e_cachefilename = cache_file_name is_dataframe v (cachedir cfg) func_name fp t'\<rparr>])"
    if s: "cache_inventory w fp = Some es" and l: "cache_lookup cfg fp w = Inr None" for es
  proof -
    from run fp l have "cache_miss is_dataframe cfg func_name call fp w = (out, w')"
      by (simp add: cache_wrapper_miss)
    with cm s show ?thesis by auto
  qed
  from a b show ?thesis by blast
qed

text \<open>
  The first call under \<^verbatim>\<open>hoard\<close> on an empty cache: the result 42 is written to its
  file, and the inventory has no entry for the fingerprint afterwards.
\<close>

theorem cache_hoard_append_lost_witness:
  "hoard (cache_cfg ''0001-01-01'' True) \<and>
   return_42 (fstate empty_cache) (clock empty_cache) = (Inr (Some 42), (), now_example) \<and>
   cache_inventory empty_cache ''sha1:f(1)'' = None \<and>
   fst (cache_wrapper example_digest no_dataframe (cache_cfg ''0001-01-01'' True) ''f'' return_42
          [''1''] [] empty_cache) = Returned (Some 42) \<and>
   storage (snd (cache_wrapper example_digest no_dataframe (cache_cfg ''0001-01-01'' True) ''f''
          return_42 [''1''] [] empty_cache)) ''cache/f_sha1:f(1)_2024-03-31_010203.pkl'' = Some 42 \<and>
   cache_inventory (snd (cache_wrapper example_digest no_dataframe (cache_cfg ''0001-01-01'' True)
          ''f'' return_42 [''1''] [] empty_cache)) ''sha1:f(1)'' = None"
proof -
  let ?cfg = "cache_cfg ''0001-01-01'' True"
  let ?run = "cache_wrapper example_digest no_dataframe ?cfg ''f'' return_42 [''1''] [] empty_cache"
  have h: "hoard ?cfg" by (simp add: cache_cfg_def)
  have c: "return_42 (fstate empty_cache) (clock empty_cache) = (Inr (Some 42), (), now_example)"
    by (simp add: return_42_def empty_cache_def)
  have n: "cache_inventory empty_cache ''sha1:f(1)'' = None" by (simp add: empty_cache_def)
  have r: "?run = (fst ?run, snd ?run)" by simp
  from cache_hoard_append_lost [OF ex_fp [symmetric] h c r] n
  have "fst ?run = Returned (Some 42) \<and>
        storage (snd ?run) (cache_file_name no_dataframe 42 (cachedir ?cfg) ''f'' ''sha1:f(1)'' now_example) = Some 42 \<and>
        cache_inventory (snd ?run) ''sha1:f(1)'' = None"
    by blast
  then have "fst ?run = Returned (Some 42) \<and>
        storage (snd ?run) ''cache/f_sha1:f(1)_2024-03-31_010203.pkl'' = Some 42 \<and>
        cache_inventory (snd ?run) ''sha1:f(1)'' = None"
    by (simp add: cache_cfg_def ex_file)
  with h c n show ?thesis by blast
qed

text \<open>
  C3 (as stated: after a second write under single-version retention exactly one file
  remains for the fingerprint, and under \<^verbatim>\<open>hoard\<close> both files remain).  The file name
  carries the time of the write to the second only.  Two writes within one second have
  the same file name: under single-version retention the second write overwrites the
  file and then removes it as the stale file of the first entry, so no file remains while
  the inventory still records one; under \<^verbatim>\<open>hoard\<close> the second write overwrites the file,
  so one file remains and the inventory records it twice.
\<close>

theorem cache_same_second_counterexample:
  "(let run = cache_wrapper example_digest no_dataframe (cache_cfg ''9999'' False) ''f'' return_42
                [''1''] [];
        w1 = snd (run empty_cache); w2 = snd (run w1)
    in fst (run empty_cache) = Returned (Some 42) \<and> fst (run w1) = Returned (Some 42) \<and>
       invoked w2 = 2 \<and>
       dom (storage w1) = {''cache/f_sha1:f(1)_2024-03-31_010203.pkl''} \<and>
       dom (storage w2) = {} \<and>
       cache_inventory w2 ''sha1:f(1)'' =
         Some [\<lparr>e_dt = now_example,
                e_cachefilename = ''cache/f_sha1:f(1)_2024-03-31_010203.pkl''\<rparr>]) \<and>
   (let w = one_entry_cache\<lparr>clock := now_example\<rparr>;
        run = cache_wrapper example_digest no_dataframe (cache_cfg ''9999'' True) ''f'' return_42
                [''1''] [];
        w' = snd (run w)
    in fst (run w) = Returned (Some 42) \<and> invoked w' = Suc (invoked w) \<and>
       dom (storage w) = {''cache/f_sha1:f(1)_2024-03-31_010203.pkl''} \<and>
       dom (storage w') = {''cache/f_sha1:f(1)_2024-03-31_010203.pkl''} \<and>
       map e_cachefilename (entries_of w' ''sha1:f(1)'') =
         [''cache/f_sha1:f(1)_2024-03-31_010203.pkl'', ''cache/f_sha1:f(1)_2024-03-31_010203.pkl''])"
  by (simp add: cache_eval one_entry_cache_def)

text \<open>
  C3 (amended).  Let a call miss and the function return a value other than \<^verbatim>\<open>None\<close>,
  and let the files recorded for the fingerprint be distinct, exist, and differ from the
  new file name (which holds when the writes are at least one second apart).  Then the
  new file holds the result and no file of another name than these is touched.  Under
  single-version retention every recorded file is deleted, the inventory holds the new
  entry alone for the fingerprint, and of the files recorded before or now exactly one,
  the new one, exists.  Under \<^verbatim>\<open>hoard\<close> every recorded file is left as it was, so all
  of them and the new one exist.
\<close>

theorem cache_write_retention:
  assumes fp: "fp = get_func_sig_hashed sha1 func_name args kwargs"
    and miss: "cache_lookup cfg fp w = Inr None"
    and call: "call (fstate w) (clock w) = (Inr (Some v), s', t')"
    and newf: "newf = cache_file_name is_dataframe v (cachedir cfg) func_name fp t'"
    and rec: "recorded = map e_cachefilename (entries_of w fp)"
    and d: "distinct recorded"
    and ex: "\<forall>p \<in> set recorded. storage w p \<noteq> None"
    and new: "newf \<notin> set recorded"
    and run: "cache_wrapper sha1 is_dataframe cfg func_name call args kwargs w = (out, w')"
  shows "out = Returned (Some v) \<and> storage w' newf = Some v \<and>
         (\<forall>p. p \<notin> set recorded \<and> p \<noteq> newf \<longrightarrow> storage w' p = storage w p) \<and>
         (\<not> hoard cfg \<longrightarrow>
            (\<forall>p \<in> set recorded. storage w' p = None) \<and>
            cache_inventory w' fp = Some [\<lparr>e_dt = t', e_cachefilename = newf\<rparr>] \<and>
            {p \<in> set (newf # recorded). storage w' p \<noteq> None} = {newf}) \<and>
         (hoard cfg \<longrightarrow>
            (\<forall>p \<in> set recorded. storage w' p = storage w p) \<and>
            {p \<in> set (newf # recorded). storage w' p \<noteq> None} = set (newf # recorded))"
proof -
  from run fp miss have cm: "cache_miss is_dataframe cfg func_name call fp w = (out, w')"
    by (simp add: cache_wrapper_miss)
  show ?thesis
  proof (cases "hoard cfg")
    case True
    from cache_miss_hoard [where call = call and w = w and isdf = is_dataframe
        and name = func_name and fp = fp, OF call True] cm newf
    have o: "out = Returned (Some v)" and st: "storage w' = (storage w)(newf \<mapsto> v)"
      by auto
    from st new ex have "{p \<in> set (newf # recorded). storage w' p \<noteq> None} = set (newf # recorded)"
      by auto
    with o st new True show ?thesis by auto
  next
    case False
    from cache_miss_single_version [where call = call and w = w and isdf = is_dataframe
        and name = func_name and fp = fp, OF call False d [unfolded rec] ex [unfolded rec]
        new [unfolded rec newf]] cm newf rec
    have o: "out = Returned (Some v)"
      and st: "storage w' = (\<lambda>p. if p \<in> set recorded then None else ((storage w)(newf \<mapsto> v)) p)"
      and inv: "cache_inventory w' = (cache_inventory w)(fp \<mapsto> [\<lparr>e_dt = t', e_cachefilename = newf\<rparr>])"
      by auto
    from st new have "{p \<in> set (newf # recorded). storage w' p \<noteq> None} = {newf}"
      by auto
    with o st inv new False show ?thesis by auto
  qed
qed

text \<open>
  A second write one second after the first, under single-version retention: the file
  of the first write is gone, the file of the second holds the result.
\<close>

theorem cache_write_retention_witness:
  "cache_lookup (cache_cfg ''9999'' False) ''sha1:f(1)'' one_entry_cache = Inr None \<and>
   return_42 (fstate one_entry_cache) (clock one_entry_cache) =
     (Inr (Some 42), (), now_example\<lparr>second := 4\<rparr>) \<and>
   map e_cachefilename (entries_of one_entry_cache ''sha1:f(1)'') =
     [''cache/f_sha1:f(1)_2024-03-31_010203.pkl''] \<and>
   storage one_entry_cache ''cache/f_sha1:f(1)_2024-03-31_010203.pkl'' = Some 42 \<and>
   fst (cache_wrapper example_digest no_dataframe (cache_cfg ''9999'' False) ''f'' return_42
          [''1''] [] one_entry_cache) = Returned (Some 42) \<and>
   storage (snd (cache_wrapper example_digest no_dataframe (cache_cfg ''9999'' False) ''f''
          return_42 [''1''] [] one_entry_cache)) ''cache/f_sha1:f(1)_2024-03-31_010204.pkl'' = Some 42 \<and>
   storage (snd (cache_wrapper example_digest no_dataframe (cache_cfg ''9999'' False) ''f''
          return_42 [''1''] [] one_entry_cache)) ''cache/f_sha1:f(1)_2024-03-31_010203.pkl'' = None \<and>
   cache_inventory (snd (cache_wrapper example_digest no_dataframe (cache_cfg ''9999'' False) ''f''
          return_42 [''1''] [] one_entry_cache)) ''sha1:f(1)'' =
     Some [\<lparr>e_dt = now_example\<lparr>second := 4\<rparr>,
            e_cachefilename = ''cache/f_sha1:f(1)_2024-03-31_010204.pkl''\<rparr>] \<and>
   cache_lookup (cache_cfg ''9999'' True) ''sha1:f(1)'' one_entry_cache = Inr None \<and>
   storage (snd (cache_wrapper example_digest no_dataframe (cache_cfg ''9999'' True) ''f''
          return_42 [''1''] [] one_entry_cache)) ''cache/f_sha1:f(1)_2024-03-31_010204.pkl'' = Some 42 \<and>
   storage (snd (cache_wrapper example_digest no_dataframe (cache_cfg ''9999'' True) ''f''
          return_42 [''1''] [] one_entry_cache)) ''cache/f_sha1:f(1)_2024-03-31_010203.pkl'' = Some 42"
proof -
  let ?cfg = "cache_cfg ''9999'' False"
  let ?old = "''cache/f_sha1:f(1)_2024-03-31_010203.pkl''"
  let ?new = "''cache/f_sha1:f(1)_2024-03-31_010204.pkl''"
  let ?run = "cache_wrapper example_digest no_dataframe ?cfg ''f'' return_42 [''1''] [] one_entry_cache"
  have nh: "\<not> hoard ?cfg" by (simp add: cache_cfg_def)
  have miss: "cache_lookup ?cfg ''sha1:f(1)'' one_entry_cache = Inr None"
    by (simp add: cache_lookup_def one_entry_cache_def cache_cfg_def ex_9999 ex_stale Let_def)
  have c: "return_42 (fstate one_entry_cache) (clock one_entry_cache) =
     (Inr (Some 42), (), now_example\<lparr>second := 4\<rparr>)"
    by (simp add: return_42_def one_entry_cache_def)
  have newf: "?new = cache_file_name no_dataframe 42 (cachedir ?cfg) ''f'' ''sha1:f(1)''
      (now_example\<lparr>second := 4\<rparr>)"
    by (simp add: cache_cfg_def ex_file4)
  have rec: "[?old] = map e_cachefilename (entries_of one_entry_cache ''sha1:f(1)'')"
    by (simp add: entries_of_def one_entry_cache_def)
  have d: "distinct [?old]" by simp
  have st: "storage one_entry_cache ?old = Some 42" by (simp add: one_entry_cache_def)
  then have ex: "\<forall>p \<in> set [?old]. storage one_entry_cache p \<noteq> None" by simp
  have new: "?new \<notin> set [?old]" by simp
  have r: "?run = (fst ?run, snd ?run)" by simp
  note th = cache_write_retention [OF ex_fp [symmetric] miss c newf rec d ex new r]
  from th have a: "fst ?run = Returned (Some 42)" by blast
  from th have b: "storage (snd ?run) ?new = Some 42" by blast
  from th nh have "\<forall>p \<in> set [?old]. storage (snd ?run) p = None" by blast
  then have e: "storage (snd ?run) ?old = None" by simp
  from th nh have f: "cache_inventory (snd ?run) ''sha1:f(1)'' =
     Some [\<lparr>e_dt = now_example\<lparr>second := 4\<rparr>, e_cachefilename = ?new\<rparr>]" by blast
  let ?cfgh = "cache_cfg ''9999'' True"
  let ?runh = "cache_wrapper example_digest no_dataframe ?cfgh ''f'' return_42 [''1''] [] one_entry_cache"
  have h: "hoard ?cfgh" by (simp add: cache_cfg_def)
  have missh: "cache_lookup ?cfgh ''sha1:f(1)'' one_entry_cache = Inr None"
    by (simp add: cache_lookup_def one_entry_cache_def cache_cfg_def ex_9999 ex_stale Let_def)
  have newfh: "?new = cache_file_name no_dataframe 42 (cachedir ?cfgh) ''f'' ''sha1:f(1)''
      (now_example\<lparr>second := 4\<rparr>)"
    by (simp add: cache_cfg_def ex_file4)
  have rh: "?runh = (fst ?runh, snd ?runh)" by simp
  note thh = cache_write_retention [OF ex_fp [symmetric] missh c newfh rec d ex new rh]
  from thh have bh: "storage (snd ?runh) ?new = Some 42" by blast
  from thh h have "\<forall>p \<in> set [?old]. storage (snd ?runh) p = storage one_entry_cache p" by blast
  then have eh: "storage (snd ?runh) ?old = Some 42" by (simp add: st)
  from miss c rec [symmetric] st a b e f missh bh eh show ?thesis by blast
qed

end
